theory Spec2Isabelle
  imports Main "HOL-Library.Word" "HOL-Library.Multiset"
begin

unbundle bit_operations_syntax

section \<open>Data model of \<^verbatim>\<open>sheep/gateway.c\<close>\<close>

text \<open>
  Modelled from the spec: the result codes are the \<^verbatim>\<open>SD_RES_*\<close> macros of the protocol
  headers, which are not part of the source tree at hand. The spec's error taxonomy names
  success, the read-only violation and the network error, and says that any other code a
  replica answers is surfaced verbatim; the three named codes are pairwise different
  constructors and every other code is carried by its number.
\<close>

datatype sd_res =
    SD_RES_SUCCESS
  | SD_RES_NETWORK_ERROR
  | SD_RES_READONLY
  | SD_RES_OTHER nat

text \<open>
  \<^verbatim>\<open>struct sd_req\<close> and \<^verbatim>\<open>struct sd_rsp\<close>: the fields that \<^verbatim>\<open>gateway.c\<close> reads or
  writes. Every other field of the wire header lives in the extension slot of the record
  (\<open>sd_req.more\<close>), which the code never touches by name.
\<close>

record sd_req =
  proto_ver :: "8 word"
  opcode :: "8 word"
  epoch :: "32 word"
  data_length :: "32 word"
  oid :: "64 word"

record sd_rsp =
  result :: sd_res

text \<open>\<^verbatim>\<open>struct request\<close>: request header, response header, origin flag, the ring
  snapshot the resolver works on (opaque) and the payload buffer.\<close>

record request =
  rq :: sd_req
  rp :: sd_rsp
  local :: bool
  vinfo :: nat
  data :: "8 word list"

type_synonym node_id = nat

record sd_node =
  nid :: node_id

record sd_vnode =
  node :: sd_node

record sockfd =
  fd :: int

record pollfd =
  pfd_fd :: int
  events :: "16 word"
  revents :: "16 word"

text \<open>The flags of \<^verbatim>\<open><poll.h>\<close> (Linux values).\<close>

definition POLLIN :: "16 word" where "POLLIN = 0x001"
definition POLLERR :: "16 word" where "POLLERR = 0x008"
definition POLLHUP :: "16 word" where "POLLHUP = 0x010"
definition POLLNVAL :: "16 word" where "POLLNVAL = 0x020"

text \<open>
  What \<^verbatim>\<open>poll\<close> hands back: a negative return with \<^verbatim>\<open>errno\<close> (only whether it is
  \<^verbatim>\<open>EINTR\<close> matters), zero for a timeout, or a positive return together with the
  \<^verbatim>\<open>revents\<close> it stored, one per descriptor.
\<close>

datatype poll_result =
    PollFail bool
  | PollTimeout
  | PollReady "16 word list"

text \<open>
  Every call that leaves the gateway is recorded, with its arguments and its answer, in
  the order in which the code makes it. \<open>SendReq\<close> names the node and the pooled
  connection whose descriptor the call writes to; \<open>DoRead\<close> carries the header that
  was read.
\<close>

datatype event =
    ObjectCacheHandleRequest sd_res
  | PeerReadObj sd_res
  | OidToVnodes "64 word" nat
  | OidToNodes "64 word" nat
  | Random int
  | SheepExecReq node_id sd_req sd_res
  | SockfdCacheGet node_id "sockfd option"
  | SendReq node_id sockfd sd_req "32 word" int
  | SockfdCacheDelNode node_id
  | SockfdCachePut node_id sockfd
  | SockfdCacheDel node_id sockfd
  | Poll "pollfd list" poll_result
  | DoRead int int sd_rsp
  | SheepNeedRetry "32 word" bool

text \<open>
  The collaborators of the gateway (everything declared in \<^verbatim>\<open>sheep_priv.h\<close> and
  below) are parameters. A collaborator with an effect or a changing answer takes the
  events so far, so its answers may depend in any way on what has happened; the pure
  ones (predicates on ids, the resolver on a fixed snapshot, macros) do not.
\<close>

record env =
  enable_object_cache :: bool
  bypass_object_cache :: "request \<Rightarrow> bool"
  object_cache_handle_request :: "event list \<Rightarrow> request \<Rightarrow> sd_res \<times> request"
  get_req_copy_number :: "request \<Rightarrow> nat"
  oid_to_vnodes :: "64 word \<Rightarrow> nat \<Rightarrow> nat \<Rightarrow> sd_vnode list"
  oid_to_nodes :: "64 word \<Rightarrow> nat \<Rightarrow> nat \<Rightarrow> sd_node list"
  vnode_is_local :: "sd_vnode \<Rightarrow> bool"
  peer_read_obj :: "event list \<Rightarrow> request \<Rightarrow> sd_res \<times> request"
  random_c :: "event list \<Rightarrow> int"
  sheep_exec_req ::
    "event list \<Rightarrow> node_id \<Rightarrow> sd_req \<Rightarrow> 8 word list \<Rightarrow> sd_res \<times> sd_rsp \<times> 8 word list"
  gateway_to_peer_opcode :: "8 word \<Rightarrow> 8 word"
  SD_SHEEP_PROTO_VER :: "8 word"
  oid_is_readonly :: "64 word \<Rightarrow> bool"
  sockfd_cache_get :: "event list \<Rightarrow> node_id \<Rightarrow> sockfd option"
  send_req :: "event list \<Rightarrow> int \<Rightarrow> sd_req \<Rightarrow> 8 word list \<Rightarrow> 32 word \<Rightarrow> 32 word \<Rightarrow> int"
  poll :: "event list \<Rightarrow> pollfd list \<Rightarrow> poll_result"
  do_read :: "event list \<Rightarrow> int \<Rightarrow> 32 word \<Rightarrow> int \<times> sd_rsp"
  sheep_need_retry :: "event list \<Rightarrow> 32 word \<Rightarrow> bool"
  MAX_RETRY_COUNT :: nat

section \<open>C integers and arrays\<close>

text \<open>
  \<^verbatim>\<open>int\<close> is 32 bits wide. An addition that leaves the range is written with the
  two's-complement wrap-around of the machine; \<^verbatim>\<open>%\<close> truncates towards zero, so its
  result has the sign of the dividend.
\<close>

definition wrap_int32 :: "int \<Rightarrow> int" where
  "wrap_int32 x = (x + 2147483648) mod 4294967296 - 2147483648"

definition c_rem :: "int \<Rightarrow> int \<Rightarrow> int" where
  "c_rem a b = sgn a * (\<bar>a\<bar> mod \<bar>b\<bar>)"

text \<open>
  An array that a resolver filled is the list of the entries it wrote. Reading at an
  index outside of it (a negative index, or one past what was written) is the C
  program reading memory that is not an entry: \<open>None\<close>.
\<close>

definition array_read :: "'a list \<Rightarrow> int \<Rightarrow> 'a option" where
  "array_read xs idx =
     (if 0 \<le> idx \<and> idx < int (length xs) then Some (xs ! nat idx) else None)"

text \<open>How a call ends: it returns a result code, the process panics, or it read outside
  of an array.\<close>

datatype outcome = Return sd_res | Panic | OutOfBounds

section \<open>The forwarded header\<close>

text \<open>
  \<^verbatim>\<open>gateway_init_fwd_hdr(fwd, hdr)\<close>: \<^verbatim>\<open>memcpy\<close> of the whole header over \<^verbatim>\<open>*fwd\<close>
  (so nothing of what \<^verbatim>\<open>*fwd\<close> held before remains), then the two assignments.
\<close>

definition gateway_init_fwd_hdr :: "env \<Rightarrow> 'a sd_req_scheme \<Rightarrow> 'a sd_req_scheme" where
  "gateway_init_fwd_hdr e hdr =
     (let fwd = hdr;
          fwd = fwd\<lparr>opcode := gateway_to_peer_opcode e (opcode hdr)\<rparr>;
          fwd = fwd\<lparr>proto_ver := SD_SHEEP_PROTO_VER e\<rparr>
      in fwd)"

section \<open>Reading one copy\<close>

text \<open>
  The first loop of \<^verbatim>\<open>gateway_read_obj\<close>. It leaves by \<^verbatim>\<open>goto out\<close> (\<open>LocalOut\<close>) or
  goes on to the second loop (\<open>LocalNext\<close>: after \<^verbatim>\<open>break\<close>, or when \<open>i\<close> reaches
  \<open>nr_copies\<close>).
\<close>

datatype local_pass =
    LocalOut sd_res request "event list"
  | LocalNext sd_res request "event list"
  | LocalFault request "event list"

function read_local_loop ::
  "env \<Rightarrow> request \<Rightarrow> sd_vnode list \<Rightarrow> nat \<Rightarrow> nat \<Rightarrow> sd_res \<Rightarrow> event list \<Rightarrow> local_pass"
where
  "read_local_loop e req obj_vnodes nr_copies i ret tr =
     (if i < nr_copies then
        (case array_read obj_vnodes (int i) of
           None \<Rightarrow> LocalFault req tr
         | Some v \<Rightarrow>
             if \<not> vnode_is_local e v then
               read_local_loop e req obj_vnodes nr_copies (i + 1) ret tr
             else
               (let (ret', req') = peer_read_obj e tr req;
                    tr' = tr @ [PeerReadObj ret']
                in if ret' = SD_RES_SUCCESS then LocalOut ret' req' tr'
                   else LocalNext ret' req' tr'))
      else LocalNext ret req tr)"
  by pat_completeness auto
termination
  by (relation "measure (\<lambda>(e, req, vs, n, i, ret, tr). n - i)") auto

text \<open>
  The second loop, from \<open>i\<close> on, with the offset \<open>j\<close>. \<^verbatim>\<open>sheep_exec_req\<close> answers with
  its result, the response header it left in \<^verbatim>\<open>fwd_hdr\<close> and the payload buffer.
\<close>

function read_remote_loop ::
  "env \<Rightarrow> request \<Rightarrow> sd_vnode list \<Rightarrow> nat \<Rightarrow> int \<Rightarrow> nat \<Rightarrow> sd_res \<Rightarrow> event list
   \<Rightarrow> outcome \<times> request \<times> event list"
where
  "read_remote_loop e req obj_vnodes nr_copies j i ret tr =
     (if i < nr_copies then
        (let idx = c_rem (wrap_int32 (int i + j)) (int nr_copies) in
         case array_read obj_vnodes idx of
           None \<Rightarrow> (OutOfBounds, req, tr)
         | Some v \<Rightarrow>
             if vnode_is_local e v then
               read_remote_loop e req obj_vnodes nr_copies j (i + 1) ret tr
             else
               (let fwd_hdr = gateway_init_fwd_hdr e (rq req);
                    (ret', rsp, buf) =
                       sheep_exec_req e tr (sd_node.nid (node v)) fwd_hdr (data req);
                    tr' = tr @ [SheepExecReq (sd_node.nid (node v)) fwd_hdr ret'];
                    req' = req\<lparr>data := buf\<rparr>
                in if ret' \<noteq> SD_RES_SUCCESS then
                     read_remote_loop e req' obj_vnodes nr_copies j (i + 1) ret' tr'
                   else (Return ret', req'\<lparr>rp := rsp\<rparr>, tr')))
      else (Return ret, req, tr))"
  by pat_completeness auto
termination
  by (relation "measure (\<lambda>(e, req, vs, n, j, i, ret, tr). n - i)") auto

text \<open>From \<^verbatim>\<open>j = random()\<close> to the label \<^verbatim>\<open>out\<close>. \<^verbatim>\<open>random\<close> returns a
  \<^verbatim>\<open>long\<close>, which the assignment narrows to \<^verbatim>\<open>int\<close>.\<close>

definition read_fallback ::
  "env \<Rightarrow> request \<Rightarrow> sd_vnode list \<Rightarrow> nat \<Rightarrow> sd_res \<Rightarrow> event list
   \<Rightarrow> outcome \<times> request \<times> event list"
where
  "read_fallback e req obj_vnodes nr_copies ret tr =
     (let r = random_c e tr;
          j = wrap_int32 r
      in read_remote_loop e req obj_vnodes nr_copies j 0 ret (tr @ [Random r]))"

definition gateway_read_obj ::
  "env \<Rightarrow> request \<Rightarrow> event list \<Rightarrow> outcome \<times> request \<times> event list"
where
  "gateway_read_obj e req tr =
     (if enable_object_cache e \<and> \<not> local req \<and> \<not> bypass_object_cache e req then
        (let (ret, req') = object_cache_handle_request e tr req
         in (Return ret, req', tr @ [ObjectCacheHandleRequest ret]))
      else
        (let nr_copies = get_req_copy_number e req;
             obj_vnodes = oid_to_vnodes e (oid (rq req)) (vinfo req) nr_copies;
             tr1 = tr @ [OidToVnodes (oid (rq req)) nr_copies]
         in case read_local_loop e req obj_vnodes nr_copies 0 SD_RES_SUCCESS tr1 of
              LocalOut ret req' tr' \<Rightarrow> (Return ret, req', tr')
            | LocalFault req' tr' \<Rightarrow> (OutOfBounds, req', tr')
            | LocalNext ret req' tr' \<Rightarrow> read_fallback e req' obj_vnodes nr_copies ret tr'))"

section \<open>The forward session\<close>

text \<open>
  \<^verbatim>\<open>struct forward_info\<close> is an array of entries and the count \<^verbatim>\<open>nr_sent\<close> of those in
  use; it is the list of its first \<^verbatim>\<open>nr_sent\<close> entries, and \<^verbatim>\<open>nr_sent\<close> is the
  length of that list.
\<close>

record forward_info_entry =
  pfd :: pollfd
  nid :: node_id
  sfd :: sockfd

type_synonym forward_info = "forward_info_entry list"

definition nr_sent :: "forward_info \<Rightarrow> nat" where
  "nr_sent fi = length fi"

text \<open>\<^verbatim>\<open>forward_info_update\<close>: one entry fewer, the entries behind \<open>pos\<close> moved down.\<close>

definition forward_info_update :: "forward_info \<Rightarrow> nat \<Rightarrow> forward_info" where
  "forward_info_update fi pos = take pos fi @ drop (pos + 1) fi"

definition finish_one_entry ::
  "forward_info \<Rightarrow> nat \<Rightarrow> event list \<Rightarrow> forward_info \<times> event list"
where
  "finish_one_entry fi i tr =
     (forward_info_update fi i, tr @ [SockfdCachePut (nid (fi ! i)) (sfd (fi ! i))])"

definition finish_one_entry_err ::
  "forward_info \<Rightarrow> nat \<Rightarrow> event list \<Rightarrow> forward_info \<times> event list"
where
  "finish_one_entry_err fi i tr =
     (forward_info_update fi i, tr @ [SockfdCacheDel (nid (fi ! i)) (sfd (fi ! i))])"

definition pfd_info_init :: "forward_info \<Rightarrow> pollfd list" where
  "pfd_info_init fi = map pfd fi"

text \<open>\<^verbatim>\<open>forward_info_init\<close> leaves no entry in use (the descriptors it sets to \<open>-1\<close> are
  those of entries not in use).\<close>

definition forward_info_init :: "nat \<Rightarrow> forward_info" where
  "forward_info_init nr_to_send = []"

text \<open>\<^verbatim>\<open>forward_info_advance\<close> does not write \<^verbatim>\<open>revents\<close>, and \<^verbatim>\<open>poll\<close> never reads
  it: it is \<open>0\<close> here.\<close>

definition forward_info_advance :: "forward_info \<Rightarrow> node_id \<Rightarrow> sockfd \<Rightarrow> forward_info" where
  "forward_info_advance fi n s =
     fi @ [\<lparr>pfd = \<lparr>pfd_fd = fd s, events = POLLIN, revents = 0\<rparr>, nid = n, sfd = s\<rparr>]"

section \<open>Waiting for the forwarded requests\<close>

text \<open>The \<^verbatim>\<open>revents\<close> that \<^verbatim>\<open>poll\<close> stored for descriptor \<open>i\<close>; a descriptor it said
  nothing about has none.\<close>

definition revents_at :: "16 word list \<Rightarrow> nat \<Rightarrow> 16 word" where
  "revents_at revs i = (if i < length revs then revs ! i else 0)"

text \<open>\<^verbatim>\<open>for (i = 0; i < nr_sent; i++) if (pi.pfds[i].revents & POLLIN) break;\<close> from \<open>i\<close>
  on: the value of \<open>i\<close> after the loop.\<close>

function scan_pollin :: "16 word list \<Rightarrow> nat \<Rightarrow> nat \<Rightarrow> nat" where
  "scan_pollin revs i n =
     (if i < n then
        (if revents_at revs i AND POLLIN \<noteq> 0 then i else scan_pollin revs (i + 1) n)
      else i)"
  by pat_completeness auto
termination
  by (relation "measure (\<lambda>(revs, i, n). n - i)") auto

text \<open>
  One pass of \<^verbatim>\<open>wait_forward_request\<close>, from the label \<^verbatim>\<open>again\<close> to the next
  \<^verbatim>\<open>goto again\<close> (\<open>Again\<close>, with the variables as they are then) or to the \<^verbatim>\<open>return\<close>
  or the \<^verbatim>\<open>panic\<close> (\<open>Finished\<close>).
\<close>

datatype pass =
    Again forward_info request nat sd_res "event list"
  | Finished outcome request "event list"

text \<open>The block under \<^verbatim>\<open>if (i < nr_sent)\<close>: the new \<^verbatim>\<open>err_ret\<close>, session, request and
  events.\<close>

definition handle_ready ::
  "env \<Rightarrow> forward_info \<Rightarrow> request \<Rightarrow> 16 word list \<Rightarrow> nat \<Rightarrow> sd_res \<Rightarrow> event list
   \<Rightarrow> sd_res \<times> forward_info \<times> request \<times> event list"
where
  "handle_ready e fi req revs i err_ret tr =
     (let re = revents_at revs i in
      if re AND (POLLERR OR POLLHUP OR POLLNVAL) \<noteq> 0 then
        (let (fi', tr') = finish_one_entry_err fi i tr
         in (SD_RES_NETWORK_ERROR, fi', req, tr'))
      else
        (let (rc, rsp) = do_read e tr (pfd_fd (pfd_info_init fi ! i)) (epoch (rq req));
             tr1 = tr @ [DoRead (pfd_fd (pfd_info_init fi ! i)) rc rsp];
             req' = req\<lparr>rp := rsp\<rparr>
         in if rc \<noteq> 0 then
              (let (fi', tr') = finish_one_entry_err fi i tr1
               in (SD_RES_NETWORK_ERROR, fi', req', tr'))
            else
              (let ret = result (rp req');
                   err_ret' = (if ret \<noteq> SD_RES_SUCCESS then ret else err_ret);
                   (fi', tr') = finish_one_entry fi i tr1
               in (err_ret', fi', req', tr'))))"

definition wait_pass ::
  "env \<Rightarrow> forward_info \<Rightarrow> request \<Rightarrow> nat \<Rightarrow> sd_res \<Rightarrow> event list \<Rightarrow> pass"
where
  "wait_pass e fi req repeat err_ret tr =
     (let pi = pfd_info_init fi;
          pollret = poll e tr pi;
          tr1 = tr @ [Poll pi pollret]
      in case pollret of
           PollFail eintr \<Rightarrow>
             if eintr then Again fi req repeat err_ret tr1 else Finished Panic req tr1
         | PollTimeout \<Rightarrow>
             (let retry = sheep_need_retry e tr1 (epoch (rq req));
                  tr2 = tr1 @ [SheepNeedRetry (epoch (rq req)) retry]
              in if retry \<and> repeat \<noteq> 0 then Again fi req (repeat - 1) err_ret tr2
                 else Finished (Return SD_RES_NETWORK_ERROR) req
                        (tr2 @ map (\<lambda>en. SockfdCacheDel (nid en) (sfd en)) fi))
         | PollReady revs \<Rightarrow>
             (let i = scan_pollin revs 0 (nr_sent fi);
                  (err_ret', fi', req', tr') =
                     (if i < nr_sent fi then handle_ready e fi req revs i err_ret tr1
                      else (err_ret, fi, req, tr1))
              in if nr_sent fi' > 0 then Again fi' req' repeat err_ret' tr'
                 else Finished (Return err_ret') req' tr'))"

text \<open>
  The loop may go on for ever (an interrupted \<^verbatim>\<open>poll\<close> and a \<^verbatim>\<open>poll\<close> that reports no
  readable descriptor both jump back without using up anything): not returning is \<open>None\<close>.
\<close>

partial_function (option) wait_loop ::
  "env \<Rightarrow> forward_info \<Rightarrow> request \<Rightarrow> nat \<Rightarrow> sd_res \<Rightarrow> event list
   \<Rightarrow> (outcome \<times> request \<times> event list) option"
where
  "wait_loop e fi req repeat err_ret tr =
     (case wait_pass e fi req repeat err_ret tr of
        Again fi' req' repeat' err_ret' tr' \<Rightarrow> wait_loop e fi' req' repeat' err_ret' tr'
      | Finished out req' tr' \<Rightarrow> Some (out, req', tr'))"

declare wait_loop.simps [code]

definition wait_forward_request ::
  "env \<Rightarrow> forward_info \<Rightarrow> request \<Rightarrow> event list \<Rightarrow> (outcome \<times> request \<times> event list) option"
where
  "wait_forward_request e fi req tr = wait_loop e fi req (MAX_RETRY_COUNT e) SD_RES_SUCCESS tr"

section \<open>Forwarding to every replica\<close>

text \<open>The send loop of \<^verbatim>\<open>gateway_forward_request\<close>, from \<open>i\<close> on: \<^verbatim>\<open>err_ret\<close>, the
  session and the events after it.\<close>

function forward_send_loop ::
  "env \<Rightarrow> request \<Rightarrow> sd_req \<Rightarrow> 32 word \<Rightarrow> sd_node list \<Rightarrow> nat \<Rightarrow> nat \<Rightarrow> sd_res
   \<Rightarrow> forward_info \<Rightarrow> event list \<Rightarrow> outcome \<times> forward_info \<times> event list"
where
  "forward_send_loop e req hdr wlen target_nodes nr_copies i err_ret fi tr =
     (if i < nr_copies then
        (case array_read target_nodes (int i) of
           None \<Rightarrow> (OutOfBounds, fi, tr)
         | Some n \<Rightarrow>
             (let s = sockfd_cache_get e tr (sd_node.nid n);
                  tr1 = tr @ [SockfdCacheGet (sd_node.nid n) s]
              in case s of
                   None \<Rightarrow> (Return SD_RES_NETWORK_ERROR, fi, tr1)
                 | Some s' \<Rightarrow>
                     (let ret = send_req e tr1 (fd s') hdr (data req) wlen (epoch (rq req));
                          tr2 = tr1 @ [SendReq (sd_node.nid n) s' hdr wlen ret]
                      in if ret \<noteq> 0 then
                           (Return SD_RES_NETWORK_ERROR, fi,
                            tr2 @ [SockfdCacheDelNode (sd_node.nid n)])
                         else
                           forward_send_loop e req hdr wlen target_nodes nr_copies (i + 1)
                             err_ret (forward_info_advance fi (sd_node.nid n) s') tr2)))
      else (Return err_ret, fi, tr))"
  by pat_completeness auto
termination
  by (relation "measure (\<lambda>(e, req, hdr, wlen, ns, n, i, err, fi, tr). n - i)") auto

text \<open>\<^verbatim>\<open>gateway_forward_request\<close> up to the end of the send loop.\<close>

definition forward_send_phase ::
  "env \<Rightarrow> request \<Rightarrow> event list \<Rightarrow> outcome \<times> forward_info \<times> event list"
where
  "forward_send_phase e req tr =
     (let nr_copies = get_req_copy_number e req;
          hdr = gateway_init_fwd_hdr e (rq req);
          wlen = data_length hdr;
          target_nodes = oid_to_nodes e (oid (rq req)) (vinfo req) nr_copies;
          tr0 = tr @ [OidToNodes (oid (rq req)) nr_copies];
          fi0 = forward_info_init nr_copies
      in forward_send_loop e req hdr wlen target_nodes nr_copies 0 SD_RES_SUCCESS fi0 tr0)"

definition gateway_forward_request ::
  "env \<Rightarrow> request \<Rightarrow> event list \<Rightarrow> (outcome \<times> request \<times> event list) option"
where
  "gateway_forward_request e req tr =
     (case forward_send_phase e req tr of
           (Return err_ret, fi, tr1) \<Rightarrow>
             if nr_sent fi > 0 then
               (case wait_forward_request e fi req tr1 of
                  None \<Rightarrow> None
                | Some (Return ret, req', tr2) \<Rightarrow>
                    Some (Return (if ret \<noteq> SD_RES_SUCCESS then ret else err_ret), req', tr2)
                | Some (fault, req', tr2) \<Rightarrow> Some (fault, req', tr2))
             else Some (Return err_ret, req, tr1)
         | (fault, fi, tr1) \<Rightarrow> Some (fault, req, tr1))"

section \<open>The entry points for writing and removing\<close>

definition gateway_write_obj ::
  "env \<Rightarrow> request \<Rightarrow> event list \<Rightarrow> (outcome \<times> request \<times> event list) option"
where
  "gateway_write_obj e req tr =
     (if oid_is_readonly e (oid (rq req)) then Some (Return SD_RES_READONLY, req, tr)
      else if \<not> bypass_object_cache e req then
        (let (ret, req') = object_cache_handle_request e tr req
         in Some (Return ret, req', tr @ [ObjectCacheHandleRequest ret]))
      else gateway_forward_request e req tr)"

definition gateway_create_and_write_obj ::
  "env \<Rightarrow> request \<Rightarrow> event list \<Rightarrow> (outcome \<times> request \<times> event list) option"
where
  "gateway_create_and_write_obj e req tr =
     (if oid_is_readonly e (oid (rq req)) then Some (Return SD_RES_READONLY, req, tr)
      else if \<not> bypass_object_cache e req then
        (let (ret, req') = object_cache_handle_request e tr req
         in Some (Return ret, req', tr @ [ObjectCacheHandleRequest ret]))
      else gateway_forward_request e req tr)"

definition gateway_remove_obj ::
  "env \<Rightarrow> request \<Rightarrow> event list \<Rightarrow> (outcome \<times> request \<times> event list) option"
where
  "gateway_remove_obj e req tr = gateway_forward_request e req tr"

declare forward_send_loop.simps [simp del] read_local_loop.simps [simp del]
  read_remote_loop.simps [simp del] scan_pollin.simps [simp del]

section \<open>A cluster of three nodes\<close>

text \<open>
  A concrete request and concrete collaborators to run the code on: the object has its
  three copies on the nodes 1 (the local one), 2 and 3, every call succeeds, and the
  descriptor of the pooled connection to node \<open>n\<close> is \<open>10 + n\<close>. The theorems below are
  instantiated on variations of it.
\<close>

definition node_a :: sd_node where "node_a = \<lparr>sd_node.nid = 1\<rparr>"
definition node_b :: sd_node where "node_b = \<lparr>sd_node.nid = 2\<rparr>"
definition node_c :: sd_node where "node_c = \<lparr>sd_node.nid = 3\<rparr>"

definition req0 :: request where
  "req0 = \<lparr>rq = \<lparr>proto_ver = 1, opcode = 2, epoch = 5, data_length = 0, oid = 77\<rparr>,
           rp = \<lparr>result = SD_RES_SUCCESS\<rparr>, local = False, vinfo = 0, data = []\<rparr>"

definition env0 :: env where
  "env0 = \<lparr>enable_object_cache = False,
           bypass_object_cache = (\<lambda>r. True),
           object_cache_handle_request = (\<lambda>tr r. (SD_RES_SUCCESS, r)),
           get_req_copy_number = (\<lambda>r. 3),
           oid_to_vnodes = (\<lambda>ob v n. [\<lparr>node = node_a\<rparr>, \<lparr>node = node_b\<rparr>, \<lparr>node = node_c\<rparr>]),
           oid_to_nodes = (\<lambda>ob v n. [node_a, node_b, node_c]),
           vnode_is_local = (\<lambda>v. sd_node.nid (node v) = 1),
           peer_read_obj = (\<lambda>tr r. (SD_RES_SUCCESS, r)),
           random_c = (\<lambda>tr. 4),
           sheep_exec_req = (\<lambda>tr n h d. (SD_RES_SUCCESS, \<lparr>result = SD_RES_SUCCESS\<rparr>, d)),
           gateway_to_peer_opcode = (\<lambda>c. c + 128),
           SD_SHEEP_PROTO_VER = 9,
           oid_is_readonly = (\<lambda>ob. False),
           sockfd_cache_get = (\<lambda>tr n. Some \<lparr>fd = 10 + int n\<rparr>),
           send_req = (\<lambda>tr f h d w ep. 0),
           poll = (\<lambda>tr pfds. PollReady (map (\<lambda>p. POLLIN) pfds)),
           do_read = (\<lambda>tr f ep. (0, \<lparr>result = SD_RES_SUCCESS\<rparr>)),
           sheep_need_retry = (\<lambda>tr ep. True),
           MAX_RETRY_COUNT = 2\<rparr>"

text \<open>The session after three successful sends.\<close>

definition fi3 :: forward_info where
  "fi3 = forward_info_advance (forward_info_advance (forward_info_advance
           (forward_info_init 3) 1 \<lparr>fd = 11\<rparr>) 2 \<lparr>fd = 12\<rparr>) 3 \<lparr>fd = 13\<rparr>"

text \<open>Every \<^verbatim>\<open>poll\<close> times out.\<close>

definition env_timeout :: env where
  "env_timeout = env0\<lparr>poll := (\<lambda>tr pfds. PollTimeout)\<rparr>"

text \<open>The first two calls of \<^verbatim>\<open>poll\<close> are interrupted, every later one times out.\<close>

definition env_eintr_twice :: env where
  "env_eintr_twice = env0\<lparr>poll := (\<lambda>tr pfds. if length tr < 2 then PollFail True
                                              else PollTimeout)\<rparr>"

text \<open>Node 1 answers with the code 3, node 2 with the code 2, node 3 with success.\<close>

definition env_two_errors :: env where
  "env_two_errors = env0\<lparr>do_read := (\<lambda>tr f ep.
      (0, \<lparr>result = (if f = 11 then SD_RES_OTHER 3 else if f = 12 then SD_RES_OTHER 2
                      else SD_RES_SUCCESS)\<rparr>))\<rparr>"

section \<open>Reading the events\<close>

text \<open>The result codes of the response headers that were read cleanly, in order.\<close>

fun result_of :: "event \<Rightarrow> sd_res list" where
  "result_of (DoRead f rc rsp) = (if rc = 0 then [result rsp] else [])"
| "result_of _ = []"

definition results_read :: "event list \<Rightarrow> sd_res list" where
  "results_read tr = concat (map result_of tr)"

text \<open>How a call ended, and the events after it, when it returned at all.\<close>

definition outcome_of :: "(outcome \<times> request \<times> event list) option \<Rightarrow> outcome option" where
  "outcome_of r = map_option fst r"

definition events_of :: "(outcome \<times> request \<times> event list) option \<Rightarrow> event list option" where
  "events_of r = map_option (snd \<circ> snd) r"

text \<open>The nodes for which a pooled connection was asked, in order.\<close>

fun attempt_of :: "event \<Rightarrow> node_id list" where
  "attempt_of (SockfdCacheGet n s) = [n]"
| "attempt_of _ = []"

definition attempted :: "event list \<Rightarrow> node_id list" where
  "attempted tr = concat (map attempt_of tr)"

text \<open>The node and connection of every \<^verbatim>\<open>send_req\<close> that succeeded, in order.\<close>

fun sent_of :: "event \<Rightarrow> (node_id \<times> sockfd) list" where
  "sent_of (SendReq n s h w r) = (if r = 0 then [(n, s)] else [])"
| "sent_of _ = []"

definition sent_ok :: "event list \<Rightarrow> (node_id \<times> sockfd) list" where
  "sent_ok tr = concat (map sent_of tr)"

text \<open>The node and connection of every \<^verbatim>\<open>sockfd_cache_put\<close> and \<^verbatim>\<open>sockfd_cache_del\<close>, in
  order.\<close>

fun finished_of :: "event \<Rightarrow> (node_id \<times> sockfd) list" where
  "finished_of (SockfdCachePut n s) = [(n, s)]"
| "finished_of (SockfdCacheDel n s) = [(n, s)]"
| "finished_of _ = []"

definition finished :: "event list \<Rightarrow> (node_id \<times> sockfd) list" where
  "finished tr = concat (map finished_of tr)"

text \<open>The node and connection of an entry of the session.\<close>

definition ent_conn :: "forward_info_entry \<Rightarrow> node_id \<times> sockfd" where
  "ent_conn en = (nid en, sfd en)"




text \<open>The session after the sends to the nodes 1 and 2, and the events of the send phase
  when no connection to node 3 can be had.\<close>

definition fi2 :: forward_info where
  "fi2 = forward_info_advance (forward_info_advance (forward_info_init 3) 1 \<lparr>fd = 11\<rparr>)
           2 \<lparr>fd = 12\<rparr>"


text \<open>
  The error that the waiter has recorded after the events \<open>tr\<close>, when it had recorded
  \<open>err\<close> before them, said in terms of the events alone: a read that failed and an
  eviction record the network error, a response that was read with a result other than
  success records that result, and no other event changes what is recorded.
\<close>

fun err_of :: "event \<Rightarrow> sd_res option" where
  "err_of (DoRead f rc rsp) =
     (if rc \<noteq> 0 then Some SD_RES_NETWORK_ERROR
      else if result rsp \<noteq> SD_RES_SUCCESS then Some (result rsp) else None)"
| "err_of (SockfdCacheDel n s) = Some SD_RES_NETWORK_ERROR"
| "err_of _ = None"

definition err_after :: "sd_res \<Rightarrow> event list \<Rightarrow> sd_res" where
  "err_after err tr = foldl (\<lambda>acc ev. case err_of ev of None \<Rightarrow> acc | Some x \<Rightarrow> x) err tr"

text \<open>The local read fails, \<^verbatim>\<open>random\<close> returns \<open>2\<^sup>3\<^sup>1 - 1\<close>, the largest value it can
  return, and node 2 does not answer.\<close>

definition env_overflow :: env where
  "env_overflow = env0\<lparr>peer_read_obj := (\<lambda>tr r. (SD_RES_OTHER 3, r)),
      random_c := (\<lambda>tr. 2147483647),
      sheep_exec_req := (\<lambda>tr n h d.
        (if n = 2 then SD_RES_NETWORK_ERROR else SD_RES_SUCCESS, \<lparr>result = SD_RES_SUCCESS\<rparr>, d))\<rparr>"

text \<open>The local read fails.\<close>

definition env_local_fails :: env where
  "env_local_fails = env0\<lparr>peer_read_obj := (\<lambda>tr r. (SD_RES_OTHER 3, r))\<rparr>"

text \<open>The results of the local reads and of the remote reads, in order.\<close>

fun local_read_of :: "event \<Rightarrow> sd_res list" where
  "local_read_of (PeerReadObj r) = [r]"
| "local_read_of _ = []"

definition local_reads :: "event list \<Rightarrow> sd_res list" where
  "local_reads tr = concat (map local_read_of tr)"

fun remote_read_of :: "event \<Rightarrow> (node_id \<times> sd_res) list" where
  "remote_read_of (SheepExecReq n h r) = [(n, r)]"
| "remote_read_of _ = []"

definition remote_reads :: "event list \<Rightarrow> (node_id \<times> sd_res) list" where
  "remote_reads tr = concat (map remote_read_of tr)"

text \<open>
  What the fallback pass is meant to do with the replicas in the order in which it visits
  them: skip a local one, send one read to a remote one, stop at the first success and
  copy its response, and keep the last error otherwise.
\<close>

fun remote_reads_in_order ::
  "env \<Rightarrow> request \<Rightarrow> sd_vnode list \<Rightarrow> sd_res \<Rightarrow> event list \<Rightarrow> outcome \<times> request \<times> event list"
where
  "remote_reads_in_order e req [] ret tr = (Return ret, req, tr)"
| "remote_reads_in_order e req (v # vs) ret tr =
     (if vnode_is_local e v then remote_reads_in_order e req vs ret tr
      else
        (let fwd_hdr = gateway_init_fwd_hdr e (rq req);
             (ret', rsp, buf) = sheep_exec_req e tr (sd_node.nid (node v)) fwd_hdr (data req);
             tr' = tr @ [SheepExecReq (sd_node.nid (node v)) fwd_hdr ret'];
             req' = req\<lparr>data := buf\<rparr>
         in if ret' \<noteq> SD_RES_SUCCESS then remote_reads_in_order e req' vs ret' tr'
            else (Return ret', req'\<lparr>rp := rsp\<rparr>, tr')))"

text \<open>The object of the request is read-only.\<close>

definition env_readonly :: env where
  "env_readonly = env0\<lparr>oid_is_readonly := (\<lambda>ob. ob = 77)\<rparr>"

text \<open>The object of the request is read-only, and node 2 answers the forwarded request
  with the read-only error.\<close>

definition env_readonly_replica :: env where
  "env_readonly_replica = env_readonly\<lparr>do_read := (\<lambda>tr f ep.
      (0, \<lparr>result = (if f = 12 then SD_RES_READONLY else SD_RES_SUCCESS)\<rparr>))\<rparr>"

section \<open>The forwarded header differs in two fields\<close>

text \<open>
  C9: the header that \<^verbatim>\<open>gateway_init_fwd_hdr\<close> builds has the peer opcode of the
  request's opcode and the protocol version of the sheep protocol; the epoch, the data
  length, the object id and every field the gateway does not name are those of the
  request header.
\<close>

theorem gateway_init_fwd_hdr_frame:
  "opcode (gateway_init_fwd_hdr e hdr) = gateway_to_peer_opcode e (opcode hdr) \<and>
   proto_ver (gateway_init_fwd_hdr e hdr) = SD_SHEEP_PROTO_VER e \<and>
   epoch (gateway_init_fwd_hdr e hdr) = epoch hdr \<and>
   data_length (gateway_init_fwd_hdr e hdr) = data_length hdr \<and>
   oid (gateway_init_fwd_hdr e hdr) = oid hdr \<and>
   sd_req.more (gateway_init_fwd_hdr e hdr) = sd_req.more hdr"
  by (simp add: gateway_init_fwd_hdr_def)

section \<open>Writes to read-only objects\<close>

text \<open>
  C3: when the object id of the request is read-only, \<^verbatim>\<open>gateway_write_obj\<close> and
  \<^verbatim>\<open>gateway_create_and_write_obj\<close> return \<^verbatim>\<open>SD_RES_READONLY\<close> with the request as it
  was and without a single call to a collaborator (the events are those before the
  call), whatever \<^verbatim>\<open>bypass_object_cache\<close> says.
\<close>

theorem write_readonly_fails_fast:
  assumes "oid_is_readonly e (oid (rq req))"
  shows "gateway_write_obj e req tr = Some (Return SD_RES_READONLY, req, tr) \<and>
         gateway_create_and_write_obj e req tr = Some (Return SD_RES_READONLY, req, tr)"
  using assms by (simp add: gateway_write_obj_def gateway_create_and_write_obj_def)

theorem write_readonly_fails_fast_witness:
  "oid_is_readonly
     (env0\<lparr>oid_is_readonly := (\<lambda>ob. ob = 77), bypass_object_cache := (\<lambda>r. False)\<rparr>)
     (oid (rq req0)) \<and>
   gateway_write_obj
     (env0\<lparr>oid_is_readonly := (\<lambda>ob. ob = 77), bypass_object_cache := (\<lambda>r. False)\<rparr>) req0 []
     = Some (Return SD_RES_READONLY, req0, []) \<and>
   gateway_create_and_write_obj (env0\<lparr>oid_is_readonly := (\<lambda>ob. ob = 77)\<rparr>) req0 []
     = Some (Return SD_RES_READONLY, req0, [])"
proof -
  have a: "oid_is_readonly
     (env0\<lparr>oid_is_readonly := (\<lambda>ob. ob = 77), bypass_object_cache := (\<lambda>r. False)\<rparr>)
     (oid (rq req0))"
    by (simp add: req0_def)
  have b: "oid_is_readonly (env0\<lparr>oid_is_readonly := (\<lambda>ob. ob = 77)\<rparr>) (oid (rq req0))"
    by (simp add: req0_def)
  show ?thesis
    using a write_readonly_fails_fast [OF a, of "[]"] write_readonly_fails_fast [OF b, of "[]"]
    by simp
qed

section \<open>Removing never looks at the read-only range\<close>

lemma forward_send_loop_readonly_irrelevant:
  "forward_send_loop (e\<lparr>oid_is_readonly := p\<rparr>) req hdr wlen ns n i err fi tr =
   forward_send_loop e req hdr wlen ns n i err fi tr"
proof (induction k \<equiv> "n - i" arbitrary: i fi tr)
  case 0
  then show ?case
    by (simp add: forward_send_loop.simps [of _ req hdr wlen ns n i err fi tr])
next
  case (Suc k)
  then have "k = n - Suc i" by simp
  note ih = Suc(1) [OF this]
  show ?case
    by (simp add: forward_send_loop.simps [of _ req hdr wlen ns n i err fi tr] ih Let_def
          split: option.splits)
qed

lemma wait_pass_readonly_irrelevant:
  "wait_pass (e\<lparr>oid_is_readonly := p\<rparr>) fi req repeat err tr = wait_pass e fi req repeat err tr"
  by (simp add: wait_pass_def handle_ready_def Let_def split: poll_result.splits)

lemma wait_loop_readonly_le:
  assumes "wait_loop e fi req repeat err tr = Some y"
  shows "wait_loop (e\<lparr>oid_is_readonly := p\<rparr>) fi req repeat err tr = Some y"
proof (rule wait_loop.raw_induct
    [where P = "\<lambda>e fi req repeat err tr y.
                  wait_loop (e\<lparr>oid_is_readonly := p\<rparr>) fi req repeat err tr = Some y",
     OF _ assms])
  fix f e fi req repeat err tr y
  assume ih: "\<And>e fi req repeat err tr y. f e fi req repeat err tr = Some y \<Longrightarrow>
                wait_loop (e\<lparr>oid_is_readonly := p\<rparr>) fi req repeat err tr = Some y"
    and step: "(case wait_pass e fi req repeat err tr of
                 Again fi' req' repeat' err_ret' tr' \<Rightarrow> f e fi' req' repeat' err_ret' tr'
               | Finished out req' tr' \<Rightarrow> Some (out, req', tr')) = Some y"
  show "wait_loop (e\<lparr>oid_is_readonly := p\<rparr>) fi req repeat err tr = Some y"
    using step
    by (subst wait_loop.simps)
       (auto simp: wait_pass_readonly_irrelevant split: pass.splits intro: ih)
qed

lemma wait_loop_readonly_irrelevant:
  "wait_loop (e\<lparr>oid_is_readonly := p\<rparr>) fi req repeat err tr = wait_loop e fi req repeat err tr"
proof (cases "wait_loop e fi req repeat err tr")
  case (Some y)
  then show ?thesis by (simp add: wait_loop_readonly_le)
next
  case None
  show ?thesis
  proof (cases "wait_loop (e\<lparr>oid_is_readonly := p\<rparr>) fi req repeat err tr")
    case (Some y)
    from wait_loop_readonly_le [OF this, of "oid_is_readonly e"] None show ?thesis by simp
  next
    case None': None
    with None show ?thesis by simp
  qed
qed

lemma gateway_forward_request_readonly_irrelevant:
  "gateway_forward_request (e\<lparr>oid_is_readonly := p\<rparr>) req tr = gateway_forward_request e req tr"
proof -
  have a: "forward_send_phase (e\<lparr>oid_is_readonly := p\<rparr>) req tr = forward_send_phase e req tr"
    by (simp add: forward_send_phase_def gateway_init_fwd_hdr_def Let_def
          forward_send_loop_readonly_irrelevant)
  have b: "\<And>fi t. wait_forward_request (e\<lparr>oid_is_readonly := p\<rparr>) fi req t =
                   wait_forward_request e fi req t"
    by (simp add: wait_forward_request_def wait_loop_readonly_irrelevant)
  show ?thesis
    unfolding gateway_forward_request_def a b ..
qed

section \<open>The waiter: interrupts and timeouts\<close>

lemma wait_loop_eintr_step:
  assumes "poll e tr (pfd_info_init fi) = PollFail True"
  shows "wait_loop e fi req repeat err_ret tr =
         wait_loop e fi req repeat err_ret (tr @ [Poll (pfd_info_init fi) (PollFail True)])"
  using assms by (subst wait_loop.simps) (simp add: wait_pass_def)

lemma wait_loop_timeout_step:
  assumes "poll e tr (pfd_info_init fi) = PollTimeout"
  shows "wait_loop e fi req repeat err_ret tr =
     (let tr1 = tr @ [Poll (pfd_info_init fi) PollTimeout];
          retry = sheep_need_retry e tr1 (epoch (rq req));
          tr2 = tr1 @ [SheepNeedRetry (epoch (rq req)) retry]
      in if retry \<and> repeat \<noteq> 0 then wait_loop e fi req (repeat - 1) err_ret tr2
         else Some (Return SD_RES_NETWORK_ERROR, req,
                tr2 @ map (\<lambda>en. SockfdCacheDel (nid en) (sfd en)) fi))"
  using assms by (subst wait_loop.simps) (simp add: wait_pass_def Let_def)

lemma wait_loop_always_timeout:
  assumes "\<forall>t p. poll e t p = PollTimeout" and "\<forall>t ep. sheep_need_retry e t ep"
  shows "wait_loop e fi req repeat err_ret tr =
     Some (Return SD_RES_NETWORK_ERROR, req,
       tr @ concat (replicate (Suc repeat)
               [Poll (pfd_info_init fi) PollTimeout, SheepNeedRetry (epoch (rq req)) True])
          @ map (\<lambda>en. SockfdCacheDel (nid en) (sfd en)) fi)"
proof (induction repeat arbitrary: tr)
  case 0
  show ?case using assms by (subst wait_loop_timeout_step) (simp_all add: Let_def)
next
  case (Suc repeat)
  show ?case using assms by (subst wait_loop_timeout_step) (simp_all add: Let_def Suc)
qed

text \<open>
  C7: when \<^verbatim>\<open>poll\<close> times out, the waiter asks \<^verbatim>\<open>sheep_need_retry\<close>; if it approves
  and \<open>repeat\<close> is not zero, the waiter polls the same session again with \<open>repeat\<close>
  decremented, and otherwise it calls \<^verbatim>\<open>sockfd_cache_del\<close> on every entry still in the
  session, puts none back, and returns \<^verbatim>\<open>SD_RES_NETWORK_ERROR\<close>. When every \<^verbatim>\<open>poll\<close>
  times out and the oracle always approves, \<^verbatim>\<open>wait_forward_request\<close> returns the network
  error after exactly \<^verbatim>\<open>MAX_RETRY_COUNT + 1\<close> polls, with every entry evicted.
\<close>

theorem wait_timeout_retry_budget:
  "(poll e tr (pfd_info_init fi) = PollTimeout \<longrightarrow>
      wait_loop e fi req repeat err_ret tr =
        (let tr1 = tr @ [Poll (pfd_info_init fi) PollTimeout];
             retry = sheep_need_retry e tr1 (epoch (rq req));
             tr2 = tr1 @ [SheepNeedRetry (epoch (rq req)) retry]
         in if retry \<and> repeat \<noteq> 0 then wait_loop e fi req (repeat - 1) err_ret tr2
            else Some (Return SD_RES_NETWORK_ERROR, req,
                   tr2 @ map (\<lambda>en. SockfdCacheDel (nid en) (sfd en)) fi))) \<and>
   ((\<forall>t p. poll e t p = PollTimeout) \<and> (\<forall>t ep. sheep_need_retry e t ep) \<longrightarrow>
      wait_forward_request e fi req tr =
        Some (Return SD_RES_NETWORK_ERROR, req,
          tr @ concat (replicate (Suc (MAX_RETRY_COUNT e))
                  [Poll (pfd_info_init fi) PollTimeout, SheepNeedRetry (epoch (rq req)) True])
             @ map (\<lambda>en. SockfdCacheDel (nid en) (sfd en)) fi))"
  using wait_loop_timeout_step wait_loop_always_timeout
  by (simp add: wait_forward_request_def)

theorem wait_timeout_retry_budget_witness:
  "poll env_timeout [] (pfd_info_init fi3) = PollTimeout \<and>
   (\<forall>t p. poll env_timeout t p = PollTimeout) \<and>
   (\<forall>t ep. sheep_need_retry env_timeout t ep) \<and>
   MAX_RETRY_COUNT env_timeout = 2 \<and>
   wait_forward_request env_timeout fi3 req0 [] =
     Some (Return SD_RES_NETWORK_ERROR, req0,
       [Poll (pfd_info_init fi3) PollTimeout, SheepNeedRetry 5 True,
        Poll (pfd_info_init fi3) PollTimeout, SheepNeedRetry 5 True,
        Poll (pfd_info_init fi3) PollTimeout, SheepNeedRetry 5 True,
        SockfdCacheDel 1 \<lparr>fd = 11\<rparr>, SockfdCacheDel 2 \<lparr>fd = 12\<rparr>, SockfdCacheDel 3 \<lparr>fd = 13\<rparr>])"
proof -
  have a: "\<forall>t p. poll env_timeout t p = PollTimeout"
    by (simp add: env_timeout_def)
  have b: "\<forall>t ep. sheep_need_retry env_timeout t ep"
    by (simp add: env_timeout_def env0_def)
  have c: "MAX_RETRY_COUNT env_timeout = 2"
    by (simp add: env_timeout_def env0_def)
  have d: "map (\<lambda>en. SockfdCacheDel (nid en) (sfd en)) fi3 =
     [SockfdCacheDel 1 \<lparr>fd = 11\<rparr>, SockfdCacheDel 2 \<lparr>fd = 12\<rparr>, SockfdCacheDel 3 \<lparr>fd = 13\<rparr>]"
    by (simp add: fi3_def forward_info_advance_def forward_info_init_def)
  have e: "epoch (rq req0) = 5" by (simp add: req0_def)
  from wait_timeout_retry_budget [of env_timeout "[]" fi3 req0 0 SD_RES_SUCCESS] a b
  have "wait_forward_request env_timeout fi3 req0 [] =
        Some (Return SD_RES_NETWORK_ERROR, req0,
          [] @ concat (replicate (Suc (MAX_RETRY_COUNT env_timeout))
                  [Poll (pfd_info_init fi3) PollTimeout, SheepNeedRetry (epoch (rq req0)) True])
             @ map (\<lambda>en. SockfdCacheDel (nid en) (sfd en)) fi3)"
    by blast
  then show ?thesis using a b c by (simp add: d e numeral_3_eq_3 numeral_2_eq_2)
qed

section \<open>The waiter: a response that was read\<close>

lemma wait_loop_clean_read_step:
  assumes "poll e tr (pfd_info_init fi) = PollReady revs"
    and "scan_pollin revs 0 (nr_sent fi) = i" and "i < nr_sent fi"
    and "revents_at revs i AND (POLLERR OR POLLHUP OR POLLNVAL) = 0"
    and "do_read e (tr @ [Poll (pfd_info_init fi) (PollReady revs)]) (pfd_fd (pfd (fi ! i)))
           (epoch (rq req)) = (0, rsp)"
  shows "wait_loop e fi req repeat err_ret tr =
     (let err_ret' = (if result rsp \<noteq> SD_RES_SUCCESS then result rsp else err_ret);
          tr' = tr @ [Poll (pfd_info_init fi) (PollReady revs),
                      DoRead (pfd_fd (pfd (fi ! i))) 0 rsp,
                      SockfdCachePut (nid (fi ! i)) (sfd (fi ! i))];
          fi' = forward_info_update fi i;
          req' = req\<lparr>rp := rsp\<rparr>
      in if nr_sent fi' > 0 then wait_loop e fi' req' repeat err_ret' tr'
         else Some (Return err_ret', req', tr'))"
  using assms
  by (subst wait_loop.simps)
     (simp add: wait_pass_def handle_ready_def finish_one_entry_def Let_def pfd_info_init_def
        nr_sent_def)

section \<open>The events of the send loop and of the waiter\<close>

lemma take1_drop: "i < length xs \<Longrightarrow> take (Suc 0) (drop i xs) = [xs ! i]"
  by (simp flip: Cons_nth_drop_Suc)

lemma forward_send_loop_events:
  assumes "n \<le> length ns" and "i \<le> n"
  shows "\<exists>out fi' new.
     forward_send_loop e req hdr wlen ns n i SD_RES_SUCCESS fi tr = (out, fi', tr @ new) \<and>
     map ent_conn fi' = map ent_conn fi @ sent_ok new \<and>
     finished new = [] \<and>
     (out = Return SD_RES_SUCCESS \<and> length fi' = length fi + (n - i) \<and>
        attempted new = map sd_node.nid (take (n - i) (drop i ns))
      \<or> out = Return SD_RES_NETWORK_ERROR \<and> length fi' < length fi + (n - i) \<and>
        attempted new = map sd_node.nid (take (length fi' - length fi + 1) (drop i ns)))"
  using assms
proof (induction k \<equiv> "n - i" arbitrary: i fi tr)
  case 0
  then have "\<not> i < n" by simp
  then have "forward_send_loop e req hdr wlen ns n i SD_RES_SUCCESS fi tr =
             (Return SD_RES_SUCCESS, fi, tr)"
    by (subst forward_send_loop.simps) simp
  with 0 show ?case
    by (intro exI [of _ "Return SD_RES_SUCCESS"] exI [of _ fi] exI [of _ "[]"])
       (simp add: sent_ok_def attempted_def finished_def)
next
  case (Suc k)
  then have lt: "i < n" and k: "k = n - Suc i" and le: "Suc i \<le> n" by simp_all
  with Suc have rd: "array_read ns (int i) = Some (ns ! i)"
    by (simp add: array_read_def)
  let ?nd = "sd_node.nid (ns ! i)"
  have hd: "take (Suc 0) (drop i ns) = [ns ! i]"
    using lt Suc.prems by (simp add: take1_drop)
  show ?case
  proof (cases "sockfd_cache_get e tr ?nd")
    case None
    show ?thesis
      using lt rd None hd
      by (intro exI [of _ "Return SD_RES_NETWORK_ERROR"] exI [of _ fi]
            exI [of _ "[SockfdCacheGet ?nd None]"])
         (simp add: forward_send_loop.simps [of e req hdr wlen ns n i] sent_ok_def attempted_def
            finished_def)
  next
    case (Some s)
    let ?tr1 = "tr @ [SockfdCacheGet ?nd (Some s)]"
    let ?ret = "send_req e ?tr1 (fd s) hdr (data req) wlen (epoch (rq req))"
    show ?thesis
    proof (cases "?ret = 0")
      case False
      show ?thesis
        using lt rd Some False hd
        by (intro exI [of _ "Return SD_RES_NETWORK_ERROR"] exI [of _ fi]
              exI [of _ "[SockfdCacheGet ?nd (Some s), SendReq ?nd s hdr wlen ?ret,
                          SockfdCacheDelNode ?nd]"])
           (simp add: forward_send_loop.simps [of e req hdr wlen ns n i] sent_ok_def
              attempted_def finished_def Let_def)
    next
      case True
      let ?tr2 = "?tr1 @ [SendReq ?nd s hdr wlen 0]"
      let ?fi2 = "forward_info_advance fi ?nd s"
      from Suc(1) [OF k \<open>n \<le> length ns\<close> le, of ?fi2 ?tr2]
      obtain out fi' new where
        run: "forward_send_loop e req hdr wlen ns n (Suc i) SD_RES_SUCCESS ?fi2 ?tr2 =
              (out, fi', ?tr2 @ new)"
        and ents: "map ent_conn fi' = map ent_conn ?fi2 @ sent_ok new"
        and fin: "finished new = []"
        and alt: "out = Return SD_RES_SUCCESS \<and> length fi' = length ?fi2 + (n - Suc i) \<and>
                    attempted new = map sd_node.nid (take (n - Suc i) (drop (Suc i) ns))
                  \<or> out = Return SD_RES_NETWORK_ERROR \<and> length fi' < length ?fi2 + (n - Suc i) \<and>
                    attempted new =
                      map sd_node.nid (take (length fi' - length ?fi2 + 1) (drop (Suc i) ns))"
        by blast
      let ?new = "SockfdCacheGet ?nd (Some s) # SendReq ?nd s hdr wlen 0 # new"
      have eq: "forward_send_loop e req hdr wlen ns n i SD_RES_SUCCESS fi tr =
                (out, fi', tr @ ?new)"
        using lt rd Some True run
        by (simp add: forward_send_loop.simps [of e req hdr wlen ns n i] Let_def)
      have len2: "length ?fi2 = Suc (length fi)"
        by (simp add: forward_info_advance_def)
      have e2: "map ent_conn fi' = map ent_conn fi @ sent_ok ?new"
        using ents by (simp add: sent_ok_def forward_info_advance_def ent_conn_def)
      have f2: "finished ?new = []"
        using fin by (simp add: finished_def)
      have dr: "drop i ns = ns ! i # drop (Suc i) ns"
        using lt Suc.prems by (simp add: Cons_nth_drop_Suc)
      have att: "attempted ?new = ?nd # attempted new"
        by (simp add: attempted_def)
      have a2: "out = Return SD_RES_SUCCESS \<and> length fi' = length fi + (n - i) \<and>
                  attempted ?new = map sd_node.nid (take (n - i) (drop i ns))
                \<or> out = Return SD_RES_NETWORK_ERROR \<and> length fi' < length fi + (n - i) \<and>
                  attempted ?new = map sd_node.nid (take (length fi' - length fi + 1) (drop i ns))"
      proof -
        from alt show ?thesis
        proof
          assume a: "out = Return SD_RES_SUCCESS \<and> length fi' = length ?fi2 + (n - Suc i) \<and>
                    attempted new = map sd_node.nid (take (n - Suc i) (drop (Suc i) ns))"
          have "n - i = Suc (n - Suc i)" using lt by simp
          with a show ?thesis using lt by (simp add: att dr len2)
        next
          assume a: "out = Return SD_RES_NETWORK_ERROR \<and> length fi' < length ?fi2 + (n - Suc i) \<and>
                    attempted new =
                      map sd_node.nid (take (length fi' - length ?fi2 + 1) (drop (Suc i) ns))"
          from ents have "length fi' \<ge> length ?fi2"
            by (metis length_map length_append le_add1)
          then have h: "length fi' - length fi + 1 = Suc (length fi' - length ?fi2 + 1)"
            by (simp add: len2)
          from a have "length fi' < length ?fi2 + (n - Suc i)" by simp
          with lt len2 have lb: "length fi' < length fi + (n - i)" by arith
          from a have "attempted new =
              map sd_node.nid (take (length fi' - length ?fi2 + 1) (drop (Suc i) ns))"
            by simp
          then have "attempted ?new =
              map sd_node.nid (take (length fi' - length fi + 1) (drop i ns))"
            unfolding h att dr by simp
          with a lb show ?thesis by blast
        qed
      qed
      from eq e2 f2 a2 show ?thesis by blast
    qed
  qed
qed

lemma mset_forward_info_update:
  assumes "i < length fi"
  shows "add_mset (ent_conn (fi ! i)) (mset (map ent_conn (forward_info_update fi i))) =
         mset (map ent_conn fi)"
proof -
  have "fi = take i fi @ fi ! i # drop (Suc i) fi"
    using assms by (rule id_take_nth_drop)
  then have "mset (map ent_conn fi) =
             mset (map ent_conn (take i fi @ fi ! i # drop (Suc i) fi))"
    by simp
  then show ?thesis
    by (simp add: forward_info_update_def)
qed

lemma handle_ready_events:
  assumes "i < length fi"
    and "handle_ready e fi req revs i err tr = (err', fi', req', tr')"
  shows "\<exists>new. tr' = tr @ new \<and> attempted new = [] \<and> sent_ok new = [] \<and>
           mset (finished new) + mset (map ent_conn fi') = mset (map ent_conn fi)"
proof -
  note upd = mset_forward_info_update [OF assms(1)]
  show ?thesis
    using assms(2) upd
    by (auto simp: handle_ready_def finish_one_entry_def finish_one_entry_err_def Let_def
          attempted_def sent_ok_def finished_def ent_conn_def
          split: if_splits prod.splits)
qed

lemma wait_pass_again_events:
  assumes "wait_pass e fi req repeat err tr = Again fi' req' repeat' err' tr'"
  shows "\<exists>new. tr' = tr @ new \<and> attempted new = [] \<and> sent_ok new = [] \<and>
           mset (finished new) + mset (map ent_conn fi') = mset (map ent_conn fi)"
proof (cases "poll e tr (pfd_info_init fi)")
  case (PollFail eintr)
  with assms show ?thesis
    by (auto simp: wait_pass_def Let_def attempted_def sent_ok_def finished_def
          split: if_splits)
next
  case PollTimeout
  with assms show ?thesis
    by (auto simp: wait_pass_def Let_def attempted_def sent_ok_def finished_def split: if_splits)
next
  case (PollReady revs)
  let ?tr1 = "tr @ [Poll (pfd_info_init fi) (PollReady revs)]"
  let ?i = "scan_pollin revs 0 (nr_sent fi)"
  show ?thesis
  proof (cases "?i < nr_sent fi")
    case True
    obtain a b c d where hr: "handle_ready e fi req revs ?i err ?tr1 = (a, b, c, d)"
      by (cases "handle_ready e fi req revs ?i err ?tr1") auto
    from True have "?i < length fi" by (simp add: nr_sent_def)
    from handle_ready_events [OF this hr]
    obtain new where n: "d = ?tr1 @ new" "attempted new = []" "sent_ok new = []"
        "mset (finished new) + mset (map ent_conn b) = mset (map ent_conn fi)"
      by blast
    from assms PollReady True hr have "fi' = b" "tr' = d"
      by (auto simp: wait_pass_def Let_def split: if_splits)
    with n show ?thesis
      by (intro exI [of _ "Poll (pfd_info_init fi) (PollReady revs) # new"])
         (simp add: attempted_def sent_ok_def finished_def)
  next
    case False
    with assms PollReady show ?thesis
      by (auto simp: wait_pass_def Let_def attempted_def sent_ok_def finished_def
            split: if_splits)
  qed
qed

lemma wait_pass_finished_events:
  assumes "wait_pass e fi req repeat err tr = Finished out req' tr'"
  shows "\<exists>new. tr' = tr @ new \<and> attempted new = [] \<and> sent_ok new = [] \<and> out \<noteq> OutOfBounds \<and>
           (out \<noteq> Panic \<longrightarrow> mset (finished new) = mset (map ent_conn fi))"
proof (cases "poll e tr (pfd_info_init fi)")
  case (PollFail eintr)
  with assms show ?thesis
    by (auto simp: wait_pass_def Let_def attempted_def sent_ok_def finished_def
          split: if_splits)
next
  case PollTimeout
  have "concat (map (finished_of \<circ> (\<lambda>en. SockfdCacheDel (nid en) (sfd en))) fi) = map ent_conn fi"
    by (induction fi) (simp_all add: ent_conn_def)
  moreover have "concat (map (attempt_of \<circ> (\<lambda>en. SockfdCacheDel (nid en) (sfd en))) fi) = []"
    by (induction fi) simp_all
  moreover have "concat (map (sent_of \<circ> (\<lambda>en. SockfdCacheDel (nid en) (sfd en))) fi) = []"
    by (induction fi) simp_all
  ultimately show ?thesis
    using assms PollTimeout
    by (auto simp: wait_pass_def Let_def attempted_def sent_ok_def finished_def
          split: if_splits)
next
  case (PollReady revs)
  let ?tr1 = "tr @ [Poll (pfd_info_init fi) (PollReady revs)]"
  let ?i = "scan_pollin revs 0 (nr_sent fi)"
  show ?thesis
  proof (cases "?i < nr_sent fi")
    case True
    obtain a b c d where hr: "handle_ready e fi req revs ?i err ?tr1 = (a, b, c, d)"
      by (cases "handle_ready e fi req revs ?i err ?tr1") auto
    from True have "?i < length fi" by (simp add: nr_sent_def)
    from handle_ready_events [OF this hr]
    obtain new where n: "d = ?tr1 @ new" "attempted new = []" "sent_ok new = []"
        "mset (finished new) + mset (map ent_conn b) = mset (map ent_conn fi)"
      by blast
    from assms PollReady True hr have "b = []" "tr' = d" "out = Return a"
      by (auto simp: wait_pass_def Let_def nr_sent_def split: if_splits)
    with n show ?thesis
      by (intro exI [of _ "Poll (pfd_info_init fi) (PollReady revs) # new"])
         (simp add: attempted_def sent_ok_def finished_def)
  next
    case False
    with assms PollReady show ?thesis
      by (auto simp: wait_pass_def Let_def attempted_def sent_ok_def finished_def nr_sent_def
            split: if_splits)
  qed
qed

lemma wait_loop_events_aux:
  assumes "wait_loop e fi req repeat err tr = Some y"
  shows "\<exists>new. snd (snd y) = tr @ new \<and> attempted new = [] \<and> sent_ok new = [] \<and>
           fst y \<noteq> OutOfBounds \<and>
           (fst y \<noteq> Panic \<longrightarrow> mset (finished new) = mset (map ent_conn fi))"
proof (rule wait_loop.raw_induct
    [where P = "\<lambda>e fi req repeat err tr y. \<exists>new. snd (snd y) = tr @ new \<and>
                  attempted new = [] \<and> sent_ok new = [] \<and> fst y \<noteq> OutOfBounds \<and>
                  (fst y \<noteq> Panic \<longrightarrow> mset (finished new) = mset (map ent_conn fi))",
     OF _ assms])
  fix f e fi req repeat err tr y
  assume ih: "\<And>e fi req repeat err tr y. f e fi req repeat err tr = Some y \<Longrightarrow>
                \<exists>new. snd (snd y) = tr @ new \<and> attempted new = [] \<and> sent_ok new = [] \<and>
                  fst y \<noteq> OutOfBounds \<and>
                  (fst y \<noteq> Panic \<longrightarrow> mset (finished new) = mset (map ent_conn fi))"
    and step: "(case wait_pass e fi req repeat err tr of
                 Again fi' req' repeat' err_ret' tr' \<Rightarrow> f e fi' req' repeat' err_ret' tr'
               | Finished out req' tr' \<Rightarrow> Some (out, req', tr')) = Some y"
  show "\<exists>new. snd (snd y) = tr @ new \<and> attempted new = [] \<and> sent_ok new = [] \<and>
          fst y \<noteq> OutOfBounds \<and>
          (fst y \<noteq> Panic \<longrightarrow> mset (finished new) = mset (map ent_conn fi))"
  proof (cases "wait_pass e fi req repeat err tr")
    case (Again fi1 req1 repeat1 err1 tr1)
    from wait_pass_again_events [OF Again]
    obtain n1 where n1: "tr1 = tr @ n1" "attempted n1 = []" "sent_ok n1 = []"
        "mset (finished n1) + mset (map ent_conn fi1) = mset (map ent_conn fi)"
      by blast
    from step Again have "f e fi1 req1 repeat1 err1 tr1 = Some y" by simp
    from ih [OF this]
    obtain n2 where n2: "snd (snd y) = tr1 @ n2" "attempted n2 = []" "sent_ok n2 = []"
        "fst y \<noteq> OutOfBounds"
        "fst y \<noteq> Panic \<longrightarrow> mset (finished n2) = mset (map ent_conn fi1)"
      by blast
    from n1 n2 show ?thesis
      by (intro exI [of _ "n1 @ n2"]) (auto simp: attempted_def sent_ok_def finished_def)
  next
    case (Finished out1 req1 tr1)
    with step have "y = (out1, req1, tr1)" by simp
    with wait_pass_finished_events [OF Finished] show ?thesis by simp
  qed
qed

lemma wait_loop_events:
  assumes "wait_loop e fi req repeat err tr = Some (out, req', tr')"
  shows "\<exists>new. tr' = tr @ new \<and> attempted new = [] \<and> sent_ok new = [] \<and> out \<noteq> OutOfBounds \<and>
           (out \<noteq> Panic \<longrightarrow> mset (finished new) = mset (map ent_conn fi))"
  using wait_loop_events_aux [OF assms] by simp

section \<open>The send phase and what follows it\<close>

lemma attempted_append: "attempted (xs @ ys) = attempted xs @ attempted ys"
  by (simp add: attempted_def)



section \<open>The error the waiter returns\<close>

lemma err_after_append: "err_after err (xs @ ys) = err_after (err_after err xs) ys"
  by (simp add: err_after_def)

lemma err_after_dels:
  "fi \<noteq> [] \<Longrightarrow>
   err_after err (map (\<lambda>en. SockfdCacheDel (nid en) (sfd en)) fi) = SD_RES_NETWORK_ERROR"
  by (induction fi rule: rev_induct) (simp_all add: err_after_def)

lemma handle_ready_err:
  assumes "handle_ready e fi req revs i err tr = (err', fi', req', tr')"
  shows "\<exists>new. tr' = tr @ new \<and> err' = err_after err new"
  using assms
  by (auto simp: handle_ready_def finish_one_entry_def finish_one_entry_err_def Let_def
        err_after_def split: if_splits prod.splits)

lemma wait_pass_again_err:
  assumes "wait_pass e fi req repeat err tr = Again fi' req' repeat' err' tr'" and "fi \<noteq> []"
  shows "fi' \<noteq> [] \<and> (\<exists>new. tr' = tr @ new \<and> err' = err_after err new)"
proof (cases "poll e tr (pfd_info_init fi)")
  case (PollFail eintr)
  with assms show ?thesis
    by (auto simp: wait_pass_def Let_def err_after_def split: if_splits)
next
  case PollTimeout
  with assms show ?thesis
    by (auto simp: wait_pass_def Let_def err_after_def split: if_splits)
next
  case (PollReady revs)
  let ?tr1 = "tr @ [Poll (pfd_info_init fi) (PollReady revs)]"
  let ?i = "scan_pollin revs 0 (nr_sent fi)"
  show ?thesis
  proof (cases "?i < nr_sent fi")
    case True
    obtain a b c d where hr: "handle_ready e fi req revs ?i err ?tr1 = (a, b, c, d)"
      by (cases "handle_ready e fi req revs ?i err ?tr1") auto
    from handle_ready_err [OF hr]
    obtain new where n: "d = ?tr1 @ new" "a = err_after err new"
      by blast
    from assms PollReady True hr have "fi' = b" "tr' = d" "err' = a" "b \<noteq> []"
      by (auto simp: wait_pass_def Let_def nr_sent_def split: if_splits)
    with n show ?thesis
      by (intro conjI exI [of _ "Poll (pfd_info_init fi) (PollReady revs) # new"])
         (simp_all add: err_after_def)
  next
    case False
    with assms PollReady show ?thesis
      by (auto simp: wait_pass_def Let_def err_after_def nr_sent_def split: if_splits)
  qed
qed

lemma wait_pass_finished_err:
  assumes "wait_pass e fi req repeat err tr = Finished (Return r) req' tr'" and "fi \<noteq> []"
  shows "\<exists>new. tr' = tr @ new \<and> r = err_after err new"
proof (cases "poll e tr (pfd_info_init fi)")
  case (PollFail eintr)
  with assms show ?thesis
    by (auto simp: wait_pass_def Let_def split: if_splits)
next
  case PollTimeout
  let ?new = "\<lambda>b. [Poll (pfd_info_init fi) PollTimeout, SheepNeedRetry (epoch (rq req)) b] @
                 map (\<lambda>en. SockfdCacheDel (nid en) (sfd en)) fi"
  have "err_after err (?new b) = SD_RES_NETWORK_ERROR" for b
    using err_after_dels [OF assms(2)] by (simp only: err_after_append)
  with assms PollTimeout show ?thesis
    by (auto simp: wait_pass_def Let_def split: if_splits)
next
  case (PollReady revs)
  let ?tr1 = "tr @ [Poll (pfd_info_init fi) (PollReady revs)]"
  let ?i = "scan_pollin revs 0 (nr_sent fi)"
  show ?thesis
  proof (cases "?i < nr_sent fi")
    case True
    obtain a b c d where hr: "handle_ready e fi req revs ?i err ?tr1 = (a, b, c, d)"
      by (cases "handle_ready e fi req revs ?i err ?tr1") auto
    from handle_ready_err [OF hr]
    obtain new where n: "d = ?tr1 @ new" "a = err_after err new"
      by blast
    from assms PollReady True hr have "tr' = d" "r = a"
      by (auto simp: wait_pass_def Let_def nr_sent_def split: if_splits)
    with n show ?thesis
      by (intro exI [of _ "Poll (pfd_info_init fi) (PollReady revs) # new"])
         (simp_all add: err_after_def)
  next
    case False
    with assms PollReady show ?thesis
      by (auto simp: wait_pass_def Let_def nr_sent_def split: if_splits)
  qed
qed

lemma wait_loop_err_aux:
  assumes "wait_loop e fi req repeat err tr = Some y"
  shows "fi \<noteq> [] \<longrightarrow> (\<forall>r. fst y = Return r \<longrightarrow>
           (\<exists>new. snd (snd y) = tr @ new \<and> r = err_after err new))"
proof (rule wait_loop.raw_induct
    [where P = "\<lambda>e fi req repeat err tr y. fi \<noteq> [] \<longrightarrow> (\<forall>r. fst y = Return r \<longrightarrow>
           (\<exists>new. snd (snd y) = tr @ new \<and> r = err_after err new))",
     OF _ assms])
  fix f e fi req repeat err tr y
  assume ih: "\<And>e fi req repeat err tr y. f e fi req repeat err tr = Some y \<Longrightarrow>
                fi \<noteq> [] \<longrightarrow> (\<forall>r. fst y = Return r \<longrightarrow>
                  (\<exists>new. snd (snd y) = tr @ new \<and> r = err_after err new))"
    and step: "(case wait_pass e fi req repeat err tr of
                 Again fi' req' repeat' err_ret' tr' \<Rightarrow> f e fi' req' repeat' err_ret' tr'
               | Finished out req' tr' \<Rightarrow> Some (out, req', tr')) = Some y"
  show "fi \<noteq> [] \<longrightarrow> (\<forall>r. fst y = Return r \<longrightarrow>
           (\<exists>new. snd (snd y) = tr @ new \<and> r = err_after err new))"
  proof (intro impI allI)
    fix r
    assume ne: "fi \<noteq> []" and r: "fst y = Return r"
    show "\<exists>new. snd (snd y) = tr @ new \<and> r = err_after err new"
    proof (cases "wait_pass e fi req repeat err tr")
      case (Again fi1 req1 repeat1 err1 tr1)
      from wait_pass_again_err [OF Again ne]
      obtain n1 where n1: "fi1 \<noteq> []" "tr1 = tr @ n1" "err1 = err_after err n1"
        by blast
      from step Again have "f e fi1 req1 repeat1 err1 tr1 = Some y" by simp
      from ih [OF this] n1(1) r
      obtain n2 where n2: "snd (snd y) = tr1 @ n2" "r = err_after err1 n2"
        by blast
      from n1 n2 show ?thesis
        by (intro exI [of _ "n1 @ n2"]) (simp add: err_after_append)
    next
      case (Finished out1 req1 tr1)
      with step have y: "y = (out1, req1, tr1)" by simp
      with r have "out1 = Return r" by simp
      with Finished wait_pass_finished_err [of e fi req repeat err tr r req1 tr1] ne y
      show ?thesis by simp
    qed
  qed
qed



text \<open>
  Against C4 as stated: the first response read carries the code 3, the second the code 2,
  the third success; the waiter returns the code 2.
\<close>

theorem last_non_success_wins:
  "outcome_of (wait_forward_request env_two_errors fi3 req0 []) = Some (Return (SD_RES_OTHER 2)) \<and>
   map_option results_read (events_of (wait_forward_request env_two_errors fi3 req0 [])) =
     Some [SD_RES_OTHER 3, SD_RES_OTHER 2, SD_RES_SUCCESS]"
  by code_simp

section \<open>Reading: the local copy first\<close>

lemma read_local_loop_find:
  assumes "n \<le> length vs" and "i \<le> n"
  shows "read_local_loop e req vs n i ret tr =
     (case find (vnode_is_local e) (drop i (take n vs)) of
        None \<Rightarrow> LocalNext ret req tr
      | Some v \<Rightarrow>
          (let (ret', req') = peer_read_obj e tr req;
               tr' = tr @ [PeerReadObj ret']
           in if ret' = SD_RES_SUCCESS then LocalOut ret' req' tr'
              else LocalNext ret' req' tr'))"
  using assms
proof (induction k \<equiv> "n - i" arbitrary: i)
  case 0
  then show ?case
    by (subst read_local_loop.simps) simp
next
  case (Suc k)
  then have lt: "i < n" and k: "k = n - Suc i" and le: "Suc i \<le> n" by simp_all
  with Suc.prems have rd: "array_read vs (int i) = Some (vs ! i)"
    by (simp add: array_read_def)
  have dr: "drop i (take n vs) = vs ! i # drop (Suc i) (take n vs)"
    using lt Suc.prems by (simp flip: Cons_nth_drop_Suc)
  show ?case
    using lt rd Suc(1) [OF k Suc.prems(1) le]
    by (subst read_local_loop.simps) (simp add: dr)
qed

lemma local_reads_simps [simp]:
  "local_reads [] = []"
  "local_reads (ev # tr) = local_read_of ev @ local_reads tr"
  "local_reads (xs @ ys) = local_reads xs @ local_reads ys"
  by (simp_all add: local_reads_def)

lemma read_remote_loop_local_reads:
  "local_reads (snd (snd (read_remote_loop e req vs n j i ret tr))) = local_reads tr"
proof (induction k \<equiv> "n - i" arbitrary: i req ret tr)
  case 0
  then show ?case
    by (subst read_remote_loop.simps) simp
next
  case (Suc k)
  then have k: "k = n - Suc i" by simp
  note ih = Suc(1) [OF k]
  show ?case
    by (subst read_remote_loop.simps)
       (simp add: ih Let_def split: option.splits prod.splits)
qed

lemma read_fallback_local_reads:
  "local_reads (snd (snd (read_fallback e req vs n ret tr))) = local_reads tr"
  by (simp add: read_fallback_def Let_def read_remote_loop_local_reads)

text \<open>
  C5: when the read is not handed to the object cache, \<^verbatim>\<open>gateway_read_obj\<close> looks for
  the first local virtual node in resolver order. If there is one it makes exactly one
  local read; when that succeeds it returns success with no further call (no remote
  read), and when it fails the call goes on with the fallback pass, carrying the error
  of the local read. If there is none it makes no local read. The fallback pass never
  reads locally, so no second local copy is tried.
\<close>

theorem read_local_first:
  assumes "\<not> (enable_object_cache e \<and> \<not> local req \<and> \<not> bypass_object_cache e req)"
    and "get_req_copy_number e req \<le>
         length (oid_to_vnodes e (oid (rq req)) (vinfo req) (get_req_copy_number e req))"
  shows "gateway_read_obj e req tr =
     (let n = get_req_copy_number e req;
          vs = oid_to_vnodes e (oid (rq req)) (vinfo req) n;
          tr1 = tr @ [OidToVnodes (oid (rq req)) n]
      in case find (vnode_is_local e) (take n vs) of
           None \<Rightarrow> read_fallback e req vs n SD_RES_SUCCESS tr1
         | Some v \<Rightarrow>
             (let (ret, req') = peer_read_obj e tr1 req;
                  tr2 = tr1 @ [PeerReadObj ret]
              in if ret = SD_RES_SUCCESS then (Return SD_RES_SUCCESS, req', tr2)
                 else read_fallback e req' vs n ret tr2)) \<and>
   local_reads (snd (snd (gateway_read_obj e req tr))) =
     local_reads tr @
     (case find (vnode_is_local e)
             (take (get_req_copy_number e req)
                (oid_to_vnodes e (oid (rq req)) (vinfo req) (get_req_copy_number e req))) of
        None \<Rightarrow> []
      | Some v \<Rightarrow> [fst (peer_read_obj e (tr @ [OidToVnodes (oid (rq req))
                          (get_req_copy_number e req)]) req)])"
proof -
  let ?n = "get_req_copy_number e req"
  let ?vs = "oid_to_vnodes e (oid (rq req)) (vinfo req) ?n"
  let ?tr1 = "tr @ [OidToVnodes (oid (rq req)) ?n]"
  let ?rhs = "case find (vnode_is_local e) (take ?n ?vs) of
           None \<Rightarrow> read_fallback e req ?vs ?n SD_RES_SUCCESS ?tr1
         | Some v \<Rightarrow>
             (let (ret, req') = peer_read_obj e ?tr1 req;
                  tr2 = ?tr1 @ [PeerReadObj ret]
              in if ret = SD_RES_SUCCESS then (Return SD_RES_SUCCESS, req', tr2)
                 else read_fallback e req' ?vs ?n ret tr2)"
  have a: "gateway_read_obj e req tr = ?rhs"
    using assms(1) read_local_loop_find [OF assms(2), of 0 e req SD_RES_SUCCESS ?tr1]
    by (auto simp: gateway_read_obj_def Let_def split: option.splits prod.splits)
  have lr: "local_reads ?tr1 = local_reads tr"
    by simp
  have b: "local_reads (snd (snd ?rhs)) =
     local_reads tr @
     (case find (vnode_is_local e) (take ?n ?vs) of
        None \<Rightarrow> [] | Some v \<Rightarrow> [fst (peer_read_obj e ?tr1 req)])"
    by (simp add: read_fallback_local_reads Let_def split: option.splits prod.splits)
  from a b show ?thesis by (simp add: Let_def)
qed

section \<open>Reading: the fallback pass\<close>

text \<open>
  C6 fails at the largest offset: the replicas are on the nodes 1 (local), 2 and 3, the
  local read fails and \<^verbatim>\<open>random\<close> returns \<open>2\<^sup>3\<^sup>1 - 1\<close>. The pass starts at index 1
  (node 2), whose read fails; for \<open>i = 1\<close> the sum \<open>i + j\<close> leaves the range of
  \<^verbatim>\<open>int\<close>, the index is \<open>-2\<close>, and the pass reads outside of the replica array instead
  of visiting node 3. Visiting the replicas in the cyclic order from index 1 would have
  sent a second read, to node 3, which succeeds.
\<close>

theorem read_fallback_offset_overflow:
  "fst (gateway_read_obj env_overflow req0 []) = OutOfBounds \<and>
   local_reads (snd (snd (gateway_read_obj env_overflow req0 []))) = [SD_RES_OTHER 3] \<and>
   remote_reads (snd (snd (gateway_read_obj env_overflow req0 []))) = [(2, SD_RES_NETWORK_ERROR)] \<and>
   wrap_int32 (1 + 2147483647) = - 2147483648 \<and>
   c_rem (wrap_int32 (1 + 2147483647)) 3 = - 2 \<and>
   remote_reads (snd (snd (remote_reads_in_order env_overflow req0
       [\<lparr>node = node_b\<rparr>, \<lparr>node = node_c\<rparr>, \<lparr>node = node_a\<rparr>] (SD_RES_OTHER 3) []))) =
     [(2, SD_RES_NETWORK_ERROR), (3, SD_RES_SUCCESS)]"
  by code_simp

theorem read_local_first_witness:
  "\<not> (enable_object_cache env0 \<and> \<not> local req0 \<and> \<not> bypass_object_cache env0 req0) \<and>
   get_req_copy_number env0 req0 \<le>
     length (oid_to_vnodes env0 (oid (rq req0)) (vinfo req0) (get_req_copy_number env0 req0)) \<and>
   gateway_read_obj env0 req0 [] =
     (Return SD_RES_SUCCESS, req0, [OidToVnodes 77 3, PeerReadObj SD_RES_SUCCESS]) \<and>
   local_reads (snd (snd (gateway_read_obj env0 req0 []))) = [SD_RES_SUCCESS] \<and>
   \<not> (enable_object_cache env_local_fails \<and> \<not> local req0 \<and>
      \<not> bypass_object_cache env_local_fails req0) \<and>
   get_req_copy_number env_local_fails req0 \<le>
     length (oid_to_vnodes env_local_fails (oid (rq req0)) (vinfo req0)
       (get_req_copy_number env_local_fails req0)) \<and>
   gateway_read_obj env_local_fails req0 [] =
     read_fallback env_local_fails req0
       [\<lparr>node = node_a\<rparr>, \<lparr>node = node_b\<rparr>, \<lparr>node = node_c\<rparr>] 3 (SD_RES_OTHER 3)
       [OidToVnodes 77 3, PeerReadObj (SD_RES_OTHER 3)] \<and>
   local_reads (snd (snd (gateway_read_obj env_local_fails req0 []))) = [SD_RES_OTHER 3]"
proof -
  have a1: "\<not> (enable_object_cache env0 \<and> \<not> local req0 \<and> \<not> bypass_object_cache env0 req0)"
    by (simp add: env0_def)
  have a2: "get_req_copy_number env0 req0 \<le>
     length (oid_to_vnodes env0 (oid (rq req0)) (vinfo req0) (get_req_copy_number env0 req0))"
    by (simp add: env0_def)
  have a3: "find (vnode_is_local env0) (take (get_req_copy_number env0 req0)
       (oid_to_vnodes env0 (oid (rq req0)) (vinfo req0) (get_req_copy_number env0 req0))) =
     Some \<lparr>node = node_a\<rparr>"
    by code_simp
  have a4: "peer_read_obj env0 ([] @ [OidToVnodes (oid (rq req0)) (get_req_copy_number env0 req0)])
       req0 = (SD_RES_SUCCESS, req0)"
    by (simp add: env0_def)
  have a5: "OidToVnodes (oid (rq req0)) (get_req_copy_number env0 req0) = OidToVnodes 77 3"
    by (simp add: env0_def req0_def)
  have b1: "\<not> (enable_object_cache env_local_fails \<and> \<not> local req0 \<and>
      \<not> bypass_object_cache env_local_fails req0)"
    by (simp add: env_local_fails_def env0_def)
  have b2: "get_req_copy_number env_local_fails req0 \<le>
     length (oid_to_vnodes env_local_fails (oid (rq req0)) (vinfo req0)
       (get_req_copy_number env_local_fails req0))"
    by (simp add: env_local_fails_def env0_def)
  have b3: "find (vnode_is_local env_local_fails) (take (get_req_copy_number env_local_fails req0)
       (oid_to_vnodes env_local_fails (oid (rq req0)) (vinfo req0)
          (get_req_copy_number env_local_fails req0))) =
     Some \<lparr>node = node_a\<rparr>"
    by code_simp
  have b4: "peer_read_obj env_local_fails
       ([] @ [OidToVnodes (oid (rq req0)) (get_req_copy_number env_local_fails req0)])
       req0 = (SD_RES_OTHER 3, req0)"
    by (simp add: env_local_fails_def)
  have b5: "OidToVnodes (oid (rq req0)) (get_req_copy_number env_local_fails req0) =
            OidToVnodes 77 3"
    "get_req_copy_number env_local_fails req0 = 3"
    "\<And>ob v k. oid_to_vnodes env_local_fails ob v k =
       [\<lparr>node = node_a\<rparr>, \<lparr>node = node_b\<rparr>, \<lparr>node = node_c\<rparr>]"
    by (simp_all add: env_local_fails_def env0_def req0_def)
  have b6: "oid (rq req0) = 77"
    by (simp add: req0_def)
  from read_local_first [OF a1 a2, of "[]"]
  have a: "gateway_read_obj env0 req0 [] =
       (Return SD_RES_SUCCESS, req0, [OidToVnodes 77 3, PeerReadObj SD_RES_SUCCESS]) \<and>
     local_reads (snd (snd (gateway_read_obj env0 req0 []))) = [SD_RES_SUCCESS]"
    unfolding a3 a4 Let_def by (simp add: a5)
  from read_local_first [OF b1 b2, of "[]"]
  have b: "gateway_read_obj env_local_fails req0 [] =
       read_fallback env_local_fails req0
         [\<lparr>node = node_a\<rparr>, \<lparr>node = node_b\<rparr>, \<lparr>node = node_c\<rparr>] 3 (SD_RES_OTHER 3)
         [OidToVnodes 77 3, PeerReadObj (SD_RES_OTHER 3)] \<and>
     local_reads (snd (snd (gateway_read_obj env_local_fails req0 []))) = [SD_RES_OTHER 3]"
    unfolding b3 b4 Let_def by (simp add: b5 b6 read_fallback_local_reads)
  from a1 a2 a b1 b2 b show ?thesis by blast
qed

text \<open>
  For every offset \<open>j\<close> with \<open>j + nr_copies \<le> 2\<^sup>3\<^sup>1\<close> the pass does visit the replicas
  in the cyclic order \<open>j, j + 1, \<dots>\<close> modulo the copy count.
\<close>

lemma wrap_int32_in_range:
  "- 2147483648 \<le> x \<Longrightarrow> x < 2147483648 \<Longrightarrow> wrap_int32 x = x"
  by (simp add: wrap_int32_def)

lemma c_rem_nonneg: "0 \<le> a \<Longrightarrow> 0 < b \<Longrightarrow> c_rem a b = a mod b"
  by (cases "a = 0") (simp_all add: c_rem_def)

lemma fallback_index:
  assumes "0 \<le> j" and "j + int n \<le> 2147483648" and "i < n"
  shows "c_rem (wrap_int32 (int i + j)) (int n) = int ((i + nat j) mod n)"
proof -
  from assms have a: "wrap_int32 (int i + j) = int i + j"
    by (intro wrap_int32_in_range) simp_all
  from assms have b: "c_rem (int i + j) (int n) = (int i + j) mod int n"
    by (intro c_rem_nonneg) simp_all
  from assms(1) have c: "int ((i + nat j) mod n) = (int i + j) mod int n"
    by (simp add: zmod_int)
  show ?thesis
    by (simp only: a b c)
qed

lemma read_remote_loop_in_order:
  assumes "n \<le> length vs" and "0 \<le> j" and "j + int n \<le> 2147483648" and "i \<le> n"
  shows "read_remote_loop e req vs n j i ret tr =
         remote_reads_in_order e req (map (\<lambda>k. vs ! ((k + nat j) mod n)) [i..<n]) ret tr"
  using assms(4)
proof (induction k \<equiv> "n - i" arbitrary: i req ret tr)
  case 0
  then show ?case
    by (subst read_remote_loop.simps) simp
next
  case (Suc k)
  then have lt: "i < n" and k: "k = n - Suc i" and le: "Suc i \<le> n" by simp_all
  note ih = Suc(1) [OF k le]
  let ?m = "(i + nat j) mod n"
  have idx: "c_rem (wrap_int32 (int i + j)) (int n) = int ?m"
    using assms(2,3) lt by (rule fallback_index)
  from lt have "?m < n" by simp
  with assms(1) have rd: "array_read vs (int ?m) = Some (vs ! ?m)"
    by (simp add: array_read_def)
  have up: "[i..<n] = i # [Suc i..<n]"
    using lt by (simp add: upt_conv_Cons)
  show ?case
    using lt
    by (subst read_remote_loop.simps)
       (simp add: idx rd up ih Let_def split: prod.splits)
qed

lemma read_fallback_in_order:
  assumes "n \<le> length vs" and "0 \<le> random_c e tr" and "random_c e tr + int n \<le> 2147483648"
  shows "read_fallback e req vs n ret tr =
         remote_reads_in_order e req
           (map (\<lambda>k. vs ! ((k + nat (random_c e tr)) mod n)) [0..<n]) ret
           (tr @ [Random (random_c e tr)])"
proof (cases "n = 0")
  case True
  then show ?thesis
    by (simp add: read_fallback_def Let_def read_remote_loop.simps [of e req vs 0])
next
  case False
  with assms have "wrap_int32 (random_c e tr) = random_c e tr"
    by (intro wrap_int32_in_range) simp_all
  then show ?thesis
    using read_remote_loop_in_order [OF assms(1,2,3), of 0]
    by (simp add: read_fallback_def Let_def)
qed

section \<open>What every wait and every forward does first and last\<close>

lemma wait_pass_first_event:
  assumes "wait_pass e fi req repeat err tr = p"
  shows "case p of
           Again fi' req' repeat' err' tr' \<Rightarrow>
             \<exists>rest. tr' = tr @ Poll (pfd_info_init fi) (poll e tr (pfd_info_init fi)) # rest
         | Finished out req' tr' \<Rightarrow>
             \<exists>rest. tr' = tr @ Poll (pfd_info_init fi) (poll e tr (pfd_info_init fi)) # rest"
proof (cases "poll e tr (pfd_info_init fi)")
  case (PollFail eintr)
  with assms show ?thesis
    by (auto simp: wait_pass_def Let_def split: pass.splits if_splits)
next
  case PollTimeout
  with assms show ?thesis
    by (auto simp: wait_pass_def Let_def split: pass.splits if_splits)
next
  case (PollReady revs)
  let ?tr1 = "tr @ [Poll (pfd_info_init fi) (PollReady revs)]"
  let ?i = "scan_pollin revs 0 (nr_sent fi)"
  show ?thesis
  proof (cases "?i < nr_sent fi")
    case True
    obtain a b c d where hr: "handle_ready e fi req revs ?i err ?tr1 = (a, b, c, d)"
      by (cases "handle_ready e fi req revs ?i err ?tr1") auto
    from handle_ready_err [OF hr] obtain new where "d = ?tr1 @ new" by blast
    with assms PollReady True hr show ?thesis
      by (auto simp: wait_pass_def Let_def split: pass.splits if_splits)
  next
    case False
    with assms PollReady show ?thesis
      by (auto simp: wait_pass_def Let_def split: pass.splits if_splits)
  qed
qed

lemma wait_loop_first_event:
  assumes "wait_loop e fi req repeat err tr = Some (out, req', tr')"
  shows "\<exists>rest. tr' = tr @ Poll (pfd_info_init fi) (poll e tr (pfd_info_init fi)) # rest"
proof (cases "wait_pass e fi req repeat err tr")
  case (Again fi1 req1 repeat1 err1 tr1)
  from wait_pass_first_event [OF Again]
  obtain r1 where r1: "tr1 = tr @ Poll (pfd_info_init fi) (poll e tr (pfd_info_init fi)) # r1"
    by auto
  from assms Again have "wait_loop e fi1 req1 repeat1 err1 tr1 = Some (out, req', tr')"
    by (subst (asm) wait_loop.simps) simp
  from wait_loop_events [OF this] obtain n2 where "tr' = tr1 @ n2" by blast
  with r1 show ?thesis by simp
next
  case (Finished out1 req1 tr1)
  from wait_pass_first_event [OF Finished]
  obtain r1 where r1: "tr1 = tr @ Poll (pfd_info_init fi) (poll e tr (pfd_info_init fi)) # r1"
    by auto
  from assms Finished have "tr' = tr1"
    by (subst (asm) wait_loop.simps) simp
  with r1 show ?thesis by simp
qed

lemma wait_loop_always_timeout_from:
  assumes "\<And>t p. L \<le> length t \<Longrightarrow> poll e t p = PollTimeout"
    and "\<And>t ep. sheep_need_retry e t ep"
    and "L \<le> length tr"
  shows "wait_loop e fi req repeat err_ret tr =
     Some (Return SD_RES_NETWORK_ERROR, req,
       tr @ concat (replicate (Suc repeat)
               [Poll (pfd_info_init fi) PollTimeout, SheepNeedRetry (epoch (rq req)) True])
          @ map (\<lambda>en. SockfdCacheDel (nid en) (sfd en)) fi)"
  using assms(3)
proof (induction repeat arbitrary: tr)
  case 0
  then have "poll e tr (pfd_info_init fi) = PollTimeout" by (rule assms(1))
  then show ?case
    by (subst wait_loop_timeout_step) (simp_all add: Let_def assms(2))
next
  case (Suc repeat)
  from Suc.prems have p: "poll e tr (pfd_info_init fi) = PollTimeout" by (rule assms(1))
  let ?tr2 = "tr @ [Poll (pfd_info_init fi) PollTimeout, SheepNeedRetry (epoch (rq req)) True]"
  from Suc.prems have "L \<le> length ?tr2" by simp
  note ih = Suc.IH [OF this]
  show ?case
    using p by (subst wait_loop_timeout_step) (simp_all add: Let_def assms(2) ih)
qed

lemma wait_loop_interrupts_then_timeouts:
  assumes "\<And>t p. poll e t p = (if length t < L then PollFail True else PollTimeout)"
    and "\<And>t ep. sheep_need_retry e t ep"
  shows "wait_loop e fi req repeat err_ret tr =
     Some (Return SD_RES_NETWORK_ERROR, req,
       tr @ replicate (L - length tr) (Poll (pfd_info_init fi) (PollFail True))
          @ concat (replicate (Suc repeat)
               [Poll (pfd_info_init fi) PollTimeout, SheepNeedRetry (epoch (rq req)) True])
          @ map (\<lambda>en. SockfdCacheDel (nid en) (sfd en)) fi)"
proof (induction k \<equiv> "L - length tr" arbitrary: tr)
  case 0
  then have le: "L \<le> length tr" by simp
  have "\<And>t p. L \<le> length t \<Longrightarrow> poll e t p = PollTimeout"
    by (simp add: assms(1))
  from wait_loop_always_timeout_from [OF this assms(2) le] 0 show ?case
    by simp
next
  case (Suc k)
  then have lt: "length tr < L" by simp
  then have p: "poll e tr (pfd_info_init fi) = PollFail True"
    by (simp add: assms(1))
  let ?tr1 = "tr @ [Poll (pfd_info_init fi) (PollFail True)]"
  from Suc have "k = L - length ?tr1" by simp
  note ih = Suc(1) [OF this]
  from Suc have r: "L - length tr = Suc (L - length ?tr1)" by simp
  show ?case
    unfolding wait_loop_eintr_step [OF p] ih r by simp
qed

lemma err_after_snoc:
  "err_after err (xs @ [ev]) = (case err_of ev of None \<Rightarrow> err_after err xs | Some y \<Rightarrow> y)"
  by (simp add: err_after_def split: option.splits)

lemma err_after_cases:
  "err_after err new = err \<or> err_after err new = SD_RES_NETWORK_ERROR \<or>
   (\<exists>f rsp. DoRead f 0 rsp \<in> set new \<and> result rsp = err_after err new)"
proof (induction new rule: rev_induct)
  case Nil
  show ?case by (simp add: err_after_def)
next
  case (snoc ev xs)
  show ?case
  proof (cases ev)
    case (DoRead f rc rsp)
    with snoc show ?thesis
      by (auto simp: err_after_snoc)
  next
    case (SockfdCacheDel n s)
    then show ?thesis by (simp add: err_after_snoc)
  qed (use snoc in \<open>auto simp: err_after_snoc\<close>)
qed

lemma forward_send_phase_trace:
  assumes "get_req_copy_number e req \<le>
           length (oid_to_nodes e (oid (rq req)) (vinfo req) (get_req_copy_number e req))"
  shows "\<exists>out fi new.
     forward_send_phase e req tr =
       (out, fi, tr @ OidToNodes (oid (rq req)) (get_req_copy_number e req) # new) \<and>
     map ent_conn fi = sent_ok new \<and> finished new = [] \<and>
     (out = Return SD_RES_SUCCESS \<and> length fi = get_req_copy_number e req \<and>
        attempted new = map sd_node.nid (take (get_req_copy_number e req)
           (oid_to_nodes e (oid (rq req)) (vinfo req) (get_req_copy_number e req)))
      \<or> out = Return SD_RES_NETWORK_ERROR \<and> length fi < get_req_copy_number e req \<and>
        attempted new = map sd_node.nid (take (length fi + 1)
           (oid_to_nodes e (oid (rq req)) (vinfo req) (get_req_copy_number e req))))"
proof -
  let ?n = "get_req_copy_number e req"
  let ?ns = "oid_to_nodes e (oid (rq req)) (vinfo req) ?n"
  let ?ev = "OidToNodes (oid (rq req)) ?n"
  let ?hdr = "gateway_init_fwd_hdr e (rq req)"
  from forward_send_loop_events [OF assms, of 0 e req ?hdr "data_length ?hdr" "[]" "tr @ [?ev]"]
  obtain out fi new where
    run: "forward_send_loop e req ?hdr (data_length ?hdr) ?ns ?n 0 SD_RES_SUCCESS [] (tr @ [?ev])
          = (out, fi, (tr @ [?ev]) @ new)"
    and ents: "map ent_conn fi = sent_ok new"
    and fin: "finished new = []"
    and alt: "out = Return SD_RES_SUCCESS \<and> length fi = ?n \<and>
                attempted new = map sd_node.nid (take ?n ?ns)
              \<or> out = Return SD_RES_NETWORK_ERROR \<and> length fi < ?n \<and>
                attempted new = map sd_node.nid (take (length fi + 1) ?ns)"
    by auto
  have "forward_send_phase e req tr = (out, fi, tr @ ?ev # new)"
    using run by (simp add: forward_send_phase_def Let_def forward_info_init_def)
  with ents fin alt show ?thesis
    by (intro exI [of _ out] exI [of _ fi] exI [of _ new]) simp
qed

lemma forward_request_after_send_phase:
  assumes "forward_send_phase e req tr = (Return err, fi, tr1)"
  shows "(gateway_forward_request e req tr = None \<longrightarrow>
            0 < nr_sent fi \<and> wait_forward_request e fi req tr1 = None) \<and>
         (\<forall>out' req' tr'. gateway_forward_request e req tr = Some (out', req', tr') \<longrightarrow>
            (\<exists>rest. tr' = tr1 @ rest \<and> attempted rest = [] \<and> sent_ok rest = [] \<and>
               out' \<noteq> OutOfBounds \<and>
               (out' \<noteq> Panic \<longrightarrow> mset (finished rest) = mset (map ent_conn fi)) \<and>
               (0 < nr_sent fi \<longrightarrow>
                  (\<exists>rest'. rest = Poll (pfd_info_init fi) (poll e tr1 (pfd_info_init fi)) # rest')) \<and>
               (\<forall>r. out' = Return r \<longrightarrow>
                  r = (if 0 < nr_sent fi \<and> err_after SD_RES_SUCCESS rest \<noteq> SD_RES_SUCCESS
                       then err_after SD_RES_SUCCESS rest else err))))"
proof (cases "0 < nr_sent fi")
  case False
  then have "fi = []" by (simp add: nr_sent_def)
  with assms False show ?thesis
    by (simp add: gateway_forward_request_def attempted_def sent_ok_def finished_def)
next
  case True
  then have ne: "fi \<noteq> []" by (auto simp: nr_sent_def)
  let ?w = "wait_loop e fi req (MAX_RETRY_COUNT e) SD_RES_SUCCESS tr1"
  have g: "gateway_forward_request e req tr =
     (case ?w of
        None \<Rightarrow> None
      | Some (Return ret, req', tr2) \<Rightarrow>
          Some (Return (if ret \<noteq> SD_RES_SUCCESS then ret else err), req', tr2)
      | Some (fault, req', tr2) \<Rightarrow> Some (fault, req', tr2))"
    using assms True by (simp add: gateway_forward_request_def wait_forward_request_def)
  have a: "gateway_forward_request e req tr = None \<longrightarrow>
            0 < nr_sent fi \<and> wait_forward_request e fi req tr1 = None"
    using True by (auto simp: g wait_forward_request_def split: option.splits outcome.splits)
  have b: "\<exists>rest. tr' = tr1 @ rest \<and> attempted rest = [] \<and> sent_ok rest = [] \<and>
               out' \<noteq> OutOfBounds \<and>
               (out' \<noteq> Panic \<longrightarrow> mset (finished rest) = mset (map ent_conn fi)) \<and>
               (0 < nr_sent fi \<longrightarrow>
                  (\<exists>rest'. rest = Poll (pfd_info_init fi) (poll e tr1 (pfd_info_init fi)) # rest')) \<and>
               (\<forall>r. out' = Return r \<longrightarrow>
                  r = (if 0 < nr_sent fi \<and> err_after SD_RES_SUCCESS rest \<noteq> SD_RES_SUCCESS
                       then err_after SD_RES_SUCCESS rest else err))"
    if ret: "gateway_forward_request e req tr = Some (out', req', tr')" for out' req' tr'
  proof -
    from ret g obtain o2 where w: "?w = Some (o2, req', tr')"
      and o2: "out' = (case o2 of Return ret \<Rightarrow>
                  Return (if ret \<noteq> SD_RES_SUCCESS then ret else err) | _ \<Rightarrow> o2)"
      by (auto split: option.splits outcome.splits)
    from wait_loop_events [OF w]
    obtain rest where rest: "tr' = tr1 @ rest" "attempted rest = []" "sent_ok rest = []"
        "o2 \<noteq> OutOfBounds" "o2 \<noteq> Panic \<longrightarrow> mset (finished rest) = mset (map ent_conn fi)"
      by blast
    from wait_loop_first_event [OF w] rest(1)
    have first: "\<exists>rest'. rest = Poll (pfd_info_init fi) (poll e tr1 (pfd_info_init fi)) # rest'"
      by simp
    have res: "r = (if 0 < nr_sent fi \<and> err_after SD_RES_SUCCESS rest \<noteq> SD_RES_SUCCESS
                       then err_after SD_RES_SUCCESS rest else err)"
      if "out' = Return r" for r
    proof -
      from that o2 obtain r2 where r2: "o2 = Return r2"
        "r = (if r2 \<noteq> SD_RES_SUCCESS then r2 else err)"
        by (cases o2) auto
      from wait_loop_err_aux [OF w] ne r2(1) rest(1)
      have "r2 = err_after SD_RES_SUCCESS rest" by auto
      with r2(2) True show ?thesis by simp
    qed
    from o2 rest(4) have "out' \<noteq> OutOfBounds" by (cases o2) auto
    moreover from o2 rest(5) have "out' \<noteq> Panic \<longrightarrow>
        mset (finished rest) = mset (map ent_conn fi)"
      by (cases o2) auto
    ultimately show ?thesis
      using rest(1,2,3) first res by blast
  qed
  from a b show ?thesis by blast
qed

section \<open>The waiter: an interrupted wait\<close>

text \<open>
  C8: when \<^verbatim>\<open>poll\<close> fails with \<^verbatim>\<open>EINTR\<close>, the pass ends in \<^verbatim>\<open>goto again\<close> with the
  session, the request, \<^verbatim>\<open>err_ret\<close> and \<open>repeat\<close> all unchanged, and the next call the
  waiter makes is \<^verbatim>\<open>poll\<close> on the same descriptors. In any pass that jumps back, \<open>repeat\<close>
  is one less when \<^verbatim>\<open>poll\<close> timed out and unchanged otherwise. After any number \<open>k\<close> of
  interrupted calls the whole budget is still there: when every later \<^verbatim>\<open>poll\<close> times out
  and the oracle always approves, the waiter makes \<open>repeat + 1\<close> more calls of \<^verbatim>\<open>poll\<close>
  before it evicts every entry and returns the network error.
\<close>

theorem wait_eintr_keeps_budget:
  "(poll e tr (pfd_info_init fi) = PollFail True \<longrightarrow>
      wait_pass e fi req repeat err_ret tr =
        Again fi req repeat err_ret (tr @ [Poll (pfd_info_init fi) (PollFail True)]) \<and>
      wait_loop e fi req repeat err_ret tr =
        wait_loop e fi req repeat err_ret (tr @ [Poll (pfd_info_init fi) (PollFail True)]) \<and>
      (\<forall>out req' tr'. wait_loop e fi req repeat err_ret tr = Some (out, req', tr') \<longrightarrow>
         (\<exists>rest. tr' = tr @
            Poll (pfd_info_init fi) (PollFail True) #
            Poll (pfd_info_init fi)
              (poll e (tr @ [Poll (pfd_info_init fi) (PollFail True)]) (pfd_info_init fi)) #
            rest))) \<and>
   (wait_pass e fi req repeat err_ret tr = Again fi' req' repeat' err_ret' tr' \<longrightarrow>
      repeat' = (if poll e tr (pfd_info_init fi) = PollTimeout then repeat - 1 else repeat)) \<and>
   ((\<forall>t p. poll e t p = (if length t < length tr + k then PollFail True else PollTimeout)) \<and>
    (\<forall>t ep. sheep_need_retry e t ep) \<longrightarrow>
      wait_loop e fi req repeat err_ret tr =
        Some (Return SD_RES_NETWORK_ERROR, req,
          tr @ replicate k (Poll (pfd_info_init fi) (PollFail True))
             @ concat (replicate (Suc repeat)
                  [Poll (pfd_info_init fi) PollTimeout, SheepNeedRetry (epoch (rq req)) True])
             @ map (\<lambda>en. SockfdCacheDel (nid en) (sfd en)) fi))"
proof -
  have a: "wait_pass e fi req repeat err_ret tr = Again fi' req' repeat' err_ret' tr' \<Longrightarrow>
      repeat' = (if poll e tr (pfd_info_init fi) = PollTimeout then repeat - 1 else repeat)"
    by (auto simp: wait_pass_def Let_def split: poll_result.splits if_splits prod.splits)
  have b: "\<exists>rest. tr' = tr @
            Poll (pfd_info_init fi) (PollFail True) #
            Poll (pfd_info_init fi)
              (poll e (tr @ [Poll (pfd_info_init fi) (PollFail True)]) (pfd_info_init fi)) #
            rest"
    if p: "poll e tr (pfd_info_init fi) = PollFail True"
      and w: "wait_loop e fi req repeat err_ret tr = Some (out, req', tr')"
    for out req' tr'
  proof -
    from w have "wait_loop e fi req repeat err_ret
        (tr @ [Poll (pfd_info_init fi) (PollFail True)]) = Some (out, req', tr')"
      by (simp add: wait_loop_eintr_step [OF p])
    from wait_loop_first_event [OF this] show ?thesis by simp
  qed
  have c: "wait_loop e fi req repeat err_ret tr =
        Some (Return SD_RES_NETWORK_ERROR, req,
          tr @ replicate k (Poll (pfd_info_init fi) (PollFail True))
             @ concat (replicate (Suc repeat)
                  [Poll (pfd_info_init fi) PollTimeout, SheepNeedRetry (epoch (rq req)) True])
             @ map (\<lambda>en. SockfdCacheDel (nid en) (sfd en)) fi)"
    if "\<forall>t p. poll e t p = (if length t < length tr + k then PollFail True else PollTimeout)"
      and "\<forall>t ep. sheep_need_retry e t ep"
    using wait_loop_interrupts_then_timeouts [of e "length tr + k" fi req repeat err_ret tr] that
    by simp
  show ?thesis
    using a b c wait_loop_eintr_step [of e tr fi req repeat err_ret]
    by (simp add: wait_pass_def)
qed

theorem wait_eintr_keeps_budget_witness:
  "poll env_eintr_twice [] (pfd_info_init fi3) = PollFail True \<and>
   (\<forall>t p. poll env_eintr_twice t p =
      (if length t < length ([] :: event list) + 2 then PollFail True else PollTimeout)) \<and>
   (\<forall>t ep. sheep_need_retry env_eintr_twice t ep) \<and>
   wait_pass env_eintr_twice fi3 req0 2 SD_RES_SUCCESS [] =
     Again fi3 req0 2 SD_RES_SUCCESS [Poll (pfd_info_init fi3) (PollFail True)] \<and>
   wait_loop env_eintr_twice fi3 req0 2 SD_RES_SUCCESS [] =
     Some (Return SD_RES_NETWORK_ERROR, req0,
       [Poll (pfd_info_init fi3) (PollFail True), Poll (pfd_info_init fi3) (PollFail True),
        Poll (pfd_info_init fi3) PollTimeout, SheepNeedRetry 5 True,
        Poll (pfd_info_init fi3) PollTimeout, SheepNeedRetry 5 True,
        Poll (pfd_info_init fi3) PollTimeout, SheepNeedRetry 5 True,
        SockfdCacheDel 1 \<lparr>fd = 11\<rparr>, SockfdCacheDel 2 \<lparr>fd = 12\<rparr>, SockfdCacheDel 3 \<lparr>fd = 13\<rparr>])"
proof -
  have a: "poll env_eintr_twice [] (pfd_info_init fi3) = PollFail True"
    by (simp add: env_eintr_twice_def)
  have b: "\<forall>t p. poll env_eintr_twice t p =
      (if length t < length ([] :: event list) + 2 then PollFail True else PollTimeout)"
    by (simp add: env_eintr_twice_def)
  have c: "\<forall>t ep. sheep_need_retry env_eintr_twice t ep"
    by (simp add: env_eintr_twice_def env0_def)
  have d: "map (\<lambda>en. SockfdCacheDel (nid en) (sfd en)) fi3 =
     [SockfdCacheDel 1 \<lparr>fd = 11\<rparr>, SockfdCacheDel 2 \<lparr>fd = 12\<rparr>, SockfdCacheDel 3 \<lparr>fd = 13\<rparr>]"
    by (simp add: fi3_def forward_info_advance_def forward_info_init_def)
  have e: "epoch (rq req0) = 5" by (simp add: req0_def)
  note t = wait_eintr_keeps_budget
    [where e = env_eintr_twice and tr = "[]" and fi = fi3 and req = req0 and repeat = 2
       and err_ret = SD_RES_SUCCESS and k = 2 and fi' = fi3 and req' = req0 and repeat' = 2
       and err_ret' = SD_RES_SUCCESS and tr' = "[Poll (pfd_info_init fi3) (PollFail True)]"]
  from t a have w1: "wait_pass env_eintr_twice fi3 req0 2 SD_RES_SUCCESS [] =
     Again fi3 req0 2 SD_RES_SUCCESS ([] @ [Poll (pfd_info_init fi3) (PollFail True)])"
    by blast
  from t b c have w2: "wait_loop env_eintr_twice fi3 req0 2 SD_RES_SUCCESS [] =
        Some (Return SD_RES_NETWORK_ERROR, req0,
          [] @ replicate 2 (Poll (pfd_info_init fi3) (PollFail True))
             @ concat (replicate (Suc 2)
                  [Poll (pfd_info_init fi3) PollTimeout, SheepNeedRetry (epoch (rq req0)) True])
             @ map (\<lambda>en. SockfdCacheDel (nid en) (sfd en)) fi3)"
    by blast
  from w1 w2 a b c show ?thesis
    by (simp add: d e numeral_2_eq_2 numeral_3_eq_3)
qed

section \<open>Removing forwards whatever the object id\<close>

lemma remove_fans_out:
  assumes "get_req_copy_number e req \<le>
           length (oid_to_nodes e (oid (rq req)) (vinfo req) (get_req_copy_number e req))"
  shows "(\<exists>out fi new.
      forward_send_phase e req tr =
        (out, fi, tr @ OidToNodes (oid (rq req)) (get_req_copy_number e req) # new) \<and>
      (out = Return SD_RES_SUCCESS \<or> out = Return SD_RES_NETWORK_ERROR) \<and>
      (0 < get_req_copy_number e req \<longrightarrow>
         attempted new \<noteq> [] \<and>
         hd (attempted new) = sd_node.nid
           (oid_to_nodes e (oid (rq req)) (vinfo req) (get_req_copy_number e req) ! 0)) \<and>
      (out = Return SD_RES_SUCCESS \<longrightarrow>
         attempted new = map sd_node.nid (take (get_req_copy_number e req)
           (oid_to_nodes e (oid (rq req)) (vinfo req) (get_req_copy_number e req))) \<and>
         length (sent_ok new) = get_req_copy_number e req) \<and>
      (gateway_remove_obj e req tr = None \<longrightarrow>
         0 < nr_sent fi \<and>
         wait_forward_request e fi req
           (tr @ OidToNodes (oid (rq req)) (get_req_copy_number e req) # new) = None) \<and>
      (\<forall>out' req' tr'. gateway_remove_obj e req tr = Some (out', req', tr') \<longrightarrow>
         (\<exists>rest. tr' =
            tr @ OidToNodes (oid (rq req)) (get_req_copy_number e req) # new @ rest))) \<and>
   (\<forall>req' tr'. gateway_remove_obj e req tr = Some (Return SD_RES_READONLY, req', tr') \<longrightarrow>
      (\<exists>f rsp. DoRead f 0 rsp \<in> set (drop (length tr) tr') \<and>
         result rsp = SD_RES_READONLY))"
proof -
  let ?n = "get_req_copy_number e req"
  let ?ns = "oid_to_nodes e (oid (rq req)) (vinfo req) ?n"
  let ?ev = "OidToNodes (oid (rq req)) ?n"
  from forward_send_phase_trace [OF assms, of tr]
  obtain out fi new where
    run: "forward_send_phase e req tr = (out, fi, tr @ ?ev # new)"
    and ents: "map ent_conn fi = sent_ok new"
    and alt: "out = Return SD_RES_SUCCESS \<and> length fi = ?n \<and>
                attempted new = map sd_node.nid (take ?n ?ns)
              \<or> out = Return SD_RES_NETWORK_ERROR \<and> length fi < ?n \<and>
                attempted new = map sd_node.nid (take (length fi + 1) ?ns)"
    by blast
  from alt obtain err where out: "out = Return err"
    and err: "err = SD_RES_SUCCESS \<or> err = SD_RES_NETWORK_ERROR"
    by blast
  from ents have len: "length (sent_ok new) = length fi"
    by (metis length_map)
  note after = forward_request_after_send_phase [OF run [unfolded out]]
  have a: "gateway_remove_obj e req tr = gateway_forward_request e req tr"
    by (simp add: gateway_remove_obj_def)
  have c1: "out = Return SD_RES_SUCCESS \<or> out = Return SD_RES_NETWORK_ERROR"
    using alt by blast
  have c2: "attempted new \<noteq> [] \<and> hd (attempted new) = sd_node.nid (?ns ! 0)" if "0 < ?n"
  proof -
    from that assms have ne: "?ns \<noteq> []" by auto
    from alt that obtain k where k: "0 < k" "attempted new = map sd_node.nid (take k ?ns)"
      by auto
    from k(1) ne have "take k ?ns = ?ns ! 0 # take (k - 1) (tl ?ns)"
      by (cases ?ns; cases k) simp_all
    with k(2) show ?thesis by simp
  qed
  have c3: "attempted new = map sd_node.nid (take ?n ?ns) \<and> length (sent_ok new) = ?n"
    if "out = Return SD_RES_SUCCESS"
    using alt that len by auto
  have c4: "gateway_remove_obj e req tr = None \<longrightarrow>
         0 < nr_sent fi \<and> wait_forward_request e fi req (tr @ ?ev # new) = None"
    using after by (simp add: a)
  have c5: "\<exists>rest. tr' = tr @ ?ev # new @ rest"
    if "gateway_remove_obj e req tr = Some (out', req', tr')" for out' req' tr'
    using after that by (auto simp: a)
  have d: "\<exists>f rsp. DoRead f 0 rsp \<in> set (drop (length tr) tr') \<and> result rsp = SD_RES_READONLY"
    if ret: "gateway_remove_obj e req tr = Some (Return SD_RES_READONLY, req', tr')"
    for req' tr'
  proof -
    from after ret obtain rest where rest: "tr' = (tr @ ?ev # new) @ rest"
      and r: "SD_RES_READONLY =
        (if 0 < nr_sent fi \<and> err_after SD_RES_SUCCESS rest \<noteq> SD_RES_SUCCESS
         then err_after SD_RES_SUCCESS rest else err)"
      unfolding a by blast
    from r err have ea: "err_after SD_RES_SUCCESS rest = SD_RES_READONLY"
      by (auto split: if_splits)
    with err_after_cases [of SD_RES_SUCCESS rest]
    obtain f rsp where "DoRead f 0 rsp \<in> set rest" "result rsp = SD_RES_READONLY"
      by auto
    with rest show ?thesis by auto
  qed
  from run c1 c2 c3 c4 c5
  have c: "\<exists>out fi new.
      forward_send_phase e req tr = (out, fi, tr @ ?ev # new) \<and>
      (out = Return SD_RES_SUCCESS \<or> out = Return SD_RES_NETWORK_ERROR) \<and>
      (0 < ?n \<longrightarrow> attempted new \<noteq> [] \<and> hd (attempted new) = sd_node.nid (?ns ! 0)) \<and>
      (out = Return SD_RES_SUCCESS \<longrightarrow>
         attempted new = map sd_node.nid (take ?n ?ns) \<and> length (sent_ok new) = ?n) \<and>
      (gateway_remove_obj e req tr = None \<longrightarrow>
         0 < nr_sent fi \<and> wait_forward_request e fi req (tr @ ?ev # new) = None) \<and>
      (\<forall>out' req' tr'. gateway_remove_obj e req tr = Some (out', req', tr') \<longrightarrow>
         (\<exists>rest. tr' = tr @ ?ev # new @ rest))"
    by (intro exI [of _ out] exI [of _ fi] exI [of _ new]) blast
  from c d show ?thesis by blast
qed

text \<open>
  C10: \<^verbatim>\<open>gateway_remove_obj\<close> is \<^verbatim>\<open>gateway_forward_request\<close> on every request, whether
  its object id is read-only or not, and replacing the read-only predicate by any other
  one changes nothing. The fan-out takes place (the resolver having filled the \<open>N\<close>
  entries it was asked for): the call resolves the nodes and, when there is at least one
  copy, asks for the connection of the first resolved node; when
  nothing fails in the send phase it has attempted all \<open>N\<close> nodes and \<open>N\<close> sends have
  succeeded; it fails to return only when the waiter does, and when it returns, the events
  of the send phase are among its events. It never produces the read-only error itself:
  when it returns \<^verbatim>\<open>SD_RES_READONLY\<close>, a response header with that result was read from a
  replica.
\<close>

theorem remove_never_checks_readonly:
  "gateway_remove_obj e req tr = gateway_forward_request e req tr \<and>
   gateway_remove_obj (e\<lparr>oid_is_readonly := p\<rparr>) req tr = gateway_remove_obj e req tr \<and>
   (get_req_copy_number e req \<le>
      length (oid_to_nodes e (oid (rq req)) (vinfo req) (get_req_copy_number e req)) \<longrightarrow>
   (\<exists>out fi new.
      forward_send_phase e req tr =
        (out, fi, tr @ OidToNodes (oid (rq req)) (get_req_copy_number e req) # new) \<and>
      (out = Return SD_RES_SUCCESS \<or> out = Return SD_RES_NETWORK_ERROR) \<and>
      (0 < get_req_copy_number e req \<longrightarrow>
         attempted new \<noteq> [] \<and>
         hd (attempted new) = sd_node.nid
           (oid_to_nodes e (oid (rq req)) (vinfo req) (get_req_copy_number e req) ! 0)) \<and>
      (out = Return SD_RES_SUCCESS \<longrightarrow>
         attempted new = map sd_node.nid (take (get_req_copy_number e req)
           (oid_to_nodes e (oid (rq req)) (vinfo req) (get_req_copy_number e req))) \<and>
         length (sent_ok new) = get_req_copy_number e req) \<and>
      (gateway_remove_obj e req tr = None \<longrightarrow>
         0 < nr_sent fi \<and>
         wait_forward_request e fi req
           (tr @ OidToNodes (oid (rq req)) (get_req_copy_number e req) # new) = None) \<and>
      (\<forall>out' req' tr'. gateway_remove_obj e req tr = Some (out', req', tr') \<longrightarrow>
         (\<exists>rest. tr' =
            tr @ OidToNodes (oid (rq req)) (get_req_copy_number e req) # new @ rest))) \<and>
   (\<forall>req' tr'. gateway_remove_obj e req tr = Some (Return SD_RES_READONLY, req', tr') \<longrightarrow>
      (\<exists>f rsp. DoRead f 0 rsp \<in> set (drop (length tr) tr') \<and>
         result rsp = SD_RES_READONLY)))"
proof -
  have a: "gateway_remove_obj e req tr = gateway_forward_request e req tr"
    by (simp add: gateway_remove_obj_def)
  have b: "gateway_remove_obj (e\<lparr>oid_is_readonly := p\<rparr>) req tr = gateway_remove_obj e req tr"
    by (simp add: gateway_remove_obj_def gateway_forward_request_readonly_irrelevant)
  show ?thesis
    by (rule conjI [OF a conjI [OF b impI [OF remove_fans_out]]])
qed

theorem remove_never_checks_readonly_witness:
  "get_req_copy_number env_readonly_replica req0 \<le>
     length (oid_to_nodes env_readonly_replica (oid (rq req0)) (vinfo req0)
       (get_req_copy_number env_readonly_replica req0)) \<and>
   oid_is_readonly env_readonly_replica (oid (rq req0)) \<and>
   gateway_write_obj env_readonly_replica req0 [] = Some (Return SD_RES_READONLY, req0, []) \<and>
   outcome_of (gateway_remove_obj env_readonly_replica req0 []) =
     Some (Return SD_RES_READONLY) \<and>
   map_option attempted (events_of (gateway_remove_obj env_readonly_replica req0 [])) =
     Some [1, 2, 3] \<and>
   map_option results_read (events_of (gateway_remove_obj env_readonly_replica req0 [])) =
     Some [SD_RES_SUCCESS, SD_RES_READONLY, SD_RES_SUCCESS] \<and>
   (\<exists>f rsp. DoRead f 0 rsp \<in> set (drop (length ([] :: event list))
        (snd (snd (the (gateway_remove_obj env_readonly_replica req0 []))))) \<and>
      result rsp = SD_RES_READONLY) \<and>
   gateway_remove_obj env_readonly_replica req0 [] =
     gateway_forward_request env_readonly_replica req0 [] \<and>
   gateway_remove_obj (env_readonly_replica\<lparr>oid_is_readonly := (\<lambda>ob. False)\<rparr>) req0 [] =
     gateway_remove_obj env_readonly_replica req0 []"
proof -
  let ?g = "gateway_remove_obj env_readonly_replica req0 []"
  have h: "get_req_copy_number env_readonly_replica req0 \<le>
     length (oid_to_nodes env_readonly_replica (oid (rq req0)) (vinfo req0)
       (get_req_copy_number env_readonly_replica req0))"
    by (simp add: env_readonly_replica_def env_readonly_def env0_def)
  have ro: "oid_is_readonly env_readonly_replica (oid (rq req0))"
    by (simp add: env_readonly_replica_def env_readonly_def req0_def)
  have w: "gateway_write_obj env_readonly_replica req0 [] =
           Some (Return SD_RES_READONLY, req0, [])"
    using ro by (simp add: gateway_write_obj_def)
  have g: "?g = Some (Return SD_RES_READONLY, fst (snd (the ?g)), snd (snd (the ?g)))"
    by code_simp
  have att: "map_option attempted (events_of ?g) = Some [1, 2, 3]"
    by code_simp
  have res: "map_option results_read (events_of ?g) =
             Some [SD_RES_SUCCESS, SD_RES_READONLY, SD_RES_SUCCESS]"
    by code_simp
  note t0 = remove_never_checks_readonly
    [where e = env_readonly_replica and req = req0 and p = "\<lambda>ob. False" and tr = "[]"]
  from t0 have e1: "?g = gateway_forward_request env_readonly_replica req0 []"
    by (rule conjunct1)
  from t0 have e2: "gateway_remove_obj (env_readonly_replica\<lparr>oid_is_readonly := (\<lambda>ob. False)\<rparr>)
      req0 [] = ?g"
    by (rule conjunct2 [THEN conjunct1])
  note t = t0 [THEN conjunct2, THEN conjunct2, THEN mp, OF h]
  from t g have ex: "\<exists>f rsp. DoRead f 0 rsp \<in> set (drop (length ([] :: event list))
        (snd (snd (the ?g)))) \<and> result rsp = SD_RES_READONLY"
    by blast
  from g have o: "outcome_of ?g = Some (Return SD_RES_READONLY)"
    by (metis outcome_of_def fst_conv option.simps(9))
  from h ro w o att res ex e1 e2 show ?thesis by blast
qed

section \<open>Removing stops at the first failure of the send phase\<close>



section \<open>A failure of the send phase and the wait that follows\<close>



section \<open>A response that was read cleanly\<close>

text \<open>
  C4 (as amended): in a pass in which \<^verbatim>\<open>poll\<close> reports a readable entry without error
  flags and the header is read cleanly, a result other than success becomes \<^verbatim>\<open>err_ret\<close>
  whatever \<^verbatim>\<open>err_ret\<close> was, a success leaves \<^verbatim>\<open>err_ret\<close> as it is, and the connection
  is given back with \<^verbatim>\<open>sockfd_cache_put\<close>, its entry removed, and only the other entries
  are finished afterwards. Over a whole wait the code returned is the one recorded by the
  last failing event: the most recent non-success result, failed read or eviction wins,
  and later successes do not clear it.
\<close>

theorem clean_read_sets_err_ret:
  "(poll e tr (pfd_info_init fi) = PollReady revs \<and>
    scan_pollin revs 0 (nr_sent fi) = i \<and> i < nr_sent fi \<and>
    revents_at revs i AND (POLLERR OR POLLHUP OR POLLNVAL) = 0 \<and>
    do_read e (tr @ [Poll (pfd_info_init fi) (PollReady revs)]) (pfd_fd (pfd (fi ! i)))
      (epoch (rq req)) = (0, rsp) \<longrightarrow>
    wait_loop e fi req repeat err_ret tr =
     (let err_ret' = (if result rsp \<noteq> SD_RES_SUCCESS then result rsp else err_ret);
          tr' = tr @ [Poll (pfd_info_init fi) (PollReady revs),
                      DoRead (pfd_fd (pfd (fi ! i))) 0 rsp,
                      SockfdCachePut (nid (fi ! i)) (sfd (fi ! i))];
          fi' = forward_info_update fi i;
          req' = req\<lparr>rp := rsp\<rparr>
      in if nr_sent fi' > 0 then wait_loop e fi' req' repeat err_ret' tr'
         else Some (Return err_ret', req', tr')) \<and>
    (\<forall>out req3 tr3. wait_loop e fi req repeat err_ret tr = Some (out, req3, tr3) \<longrightarrow>
       (\<exists>rest. tr3 = tr @ [Poll (pfd_info_init fi) (PollReady revs),
                              DoRead (pfd_fd (pfd (fi ! i))) 0 rsp,
                              SockfdCachePut (nid (fi ! i)) (sfd (fi ! i))] @ rest \<and>
          (out \<noteq> Panic \<longrightarrow>
             mset (finished rest) = mset (map ent_conn (forward_info_update fi i)))))) \<and>
   (fi \<noteq> [] \<and> wait_loop e fi req repeat err_ret tr = Some (Return r, req'', tr'') \<longrightarrow>
      r = err_after err_ret (drop (length tr) tr''))"
proof -
  have run: "r = err_after err_ret (drop (length tr) tr'')"
    if "fi \<noteq> []" "wait_loop e fi req repeat err_ret tr = Some (Return r, req'', tr'')"
    using wait_loop_err_aux [OF that(2)] that(1) by auto
  have rest: "\<exists>rest. tr3 = tr @ [Poll (pfd_info_init fi) (PollReady revs),
                              DoRead (pfd_fd (pfd (fi ! i))) 0 rsp,
                              SockfdCachePut (nid (fi ! i)) (sfd (fi ! i))] @ rest \<and>
          (out \<noteq> Panic \<longrightarrow>
             mset (finished rest) = mset (map ent_conn (forward_info_update fi i)))"
    if step: "wait_loop e fi req repeat err_ret tr =
       (let err_ret' = (if result rsp \<noteq> SD_RES_SUCCESS then result rsp else err_ret);
            tr' = tr @ [Poll (pfd_info_init fi) (PollReady revs),
                        DoRead (pfd_fd (pfd (fi ! i))) 0 rsp,
                        SockfdCachePut (nid (fi ! i)) (sfd (fi ! i))];
            fi' = forward_info_update fi i;
            req' = req\<lparr>rp := rsp\<rparr>
        in if nr_sent fi' > 0 then wait_loop e fi' req' repeat err_ret' tr'
           else Some (Return err_ret', req', tr'))"
      and w: "wait_loop e fi req repeat err_ret tr = Some (out, req3, tr3)"
    for out req3 tr3
  proof (cases "nr_sent (forward_info_update fi i) > 0")
    case True
    with step w have "wait_loop e (forward_info_update fi i) (req\<lparr>rp := rsp\<rparr>) repeat
        (if result rsp \<noteq> SD_RES_SUCCESS then result rsp else err_ret)
        (tr @ [Poll (pfd_info_init fi) (PollReady revs),
               DoRead (pfd_fd (pfd (fi ! i))) 0 rsp,
               SockfdCachePut (nid (fi ! i)) (sfd (fi ! i))]) = Some (out, req3, tr3)"
      by (simp add: Let_def)
    from wait_loop_events [OF this] show ?thesis by auto
  next
    case False
    then have "forward_info_update fi i = []" by (simp add: nr_sent_def)
    with step w False show ?thesis
      by (auto simp: Let_def finished_def)
  qed
  show ?thesis
    using wait_loop_clean_read_step [of e tr fi revs i req rsp repeat err_ret] run rest
    by blast
qed

theorem clean_read_sets_err_ret_witness:
  "poll env_two_errors [] (pfd_info_init fi3) = PollReady [POLLIN, POLLIN, POLLIN] \<and>
   scan_pollin [POLLIN, POLLIN, POLLIN] 0 (nr_sent fi3) = 0 \<and>
   0 < nr_sent fi3 \<and>
   revents_at [POLLIN, POLLIN, POLLIN] 0 AND (POLLERR OR POLLHUP OR POLLNVAL) = 0 \<and>
   do_read env_two_errors ([] @ [Poll (pfd_info_init fi3) (PollReady [POLLIN, POLLIN, POLLIN])])
     (pfd_fd (pfd (fi3 ! 0))) (epoch (rq req0)) = (0, \<lparr>result = SD_RES_OTHER 3\<rparr>) \<and>
   wait_loop env_two_errors fi3 req0 2 SD_RES_SUCCESS [] =
     (let err_ret' = (if result \<lparr>result = SD_RES_OTHER 3\<rparr> \<noteq> SD_RES_SUCCESS
                      then result \<lparr>result = SD_RES_OTHER 3\<rparr> else SD_RES_SUCCESS);
          tr' = [] @ [Poll (pfd_info_init fi3) (PollReady [POLLIN, POLLIN, POLLIN]),
                      DoRead (pfd_fd (pfd (fi3 ! 0))) 0 \<lparr>result = SD_RES_OTHER 3\<rparr>,
                      SockfdCachePut (nid (fi3 ! 0)) (sfd (fi3 ! 0))];
          fi' = forward_info_update fi3 0;
          req' = req0\<lparr>rp := \<lparr>result = SD_RES_OTHER 3\<rparr>\<rparr>
      in if nr_sent fi' > 0 then wait_loop env_two_errors fi' req' 2 err_ret' tr'
         else Some (Return err_ret', req', tr')) \<and>
   fi3 \<noteq> [] \<and>
   outcome_of (wait_loop env_two_errors fi3 req0 2 SD_RES_SUCCESS []) =
     Some (Return (SD_RES_OTHER 2)) \<and>
   SD_RES_OTHER 2 = err_after SD_RES_SUCCESS
     (drop (length ([] :: event list))
        (snd (snd (the (wait_loop env_two_errors fi3 req0 2 SD_RES_SUCCESS [])))))"
proof -
  let ?w = "wait_loop env_two_errors fi3 req0 2 SD_RES_SUCCESS []"
  have h1: "poll env_two_errors [] (pfd_info_init fi3) = PollReady [POLLIN, POLLIN, POLLIN]"
    by code_simp
  have h2: "scan_pollin [POLLIN, POLLIN, POLLIN] 0 (nr_sent fi3) = 0"
    by code_simp
  have h3: "0 < nr_sent fi3"
    by code_simp
  have h4: "revents_at [POLLIN, POLLIN, POLLIN] 0 AND (POLLERR OR POLLHUP OR POLLNVAL) = 0"
    by code_simp
  have h5: "do_read env_two_errors
     ([] @ [Poll (pfd_info_init fi3) (PollReady [POLLIN, POLLIN, POLLIN])])
     (pfd_fd (pfd (fi3 ! 0))) (epoch (rq req0)) = (0, \<lparr>result = SD_RES_OTHER 3\<rparr>)"
    by code_simp
  have h6: "fi3 \<noteq> []"
    by code_simp
  have h7: "?w = Some (Return (SD_RES_OTHER 2), fst (snd (the ?w)), snd (snd (the ?w)))"
    by code_simp
  note t = clean_read_sets_err_ret
    [where e = env_two_errors and tr = "[]" and fi = fi3
       and revs = "[POLLIN, POLLIN, POLLIN]" and i = 0 and req = req0
       and rsp = "\<lparr>result = SD_RES_OTHER 3\<rparr>" and repeat = 2 and err_ret = SD_RES_SUCCESS
       and r = "SD_RES_OTHER 2" and req'' = "fst (snd (the ?w))"
       and tr'' = "snd (snd (the ?w))"]
  from h7 have h8: "outcome_of ?w = Some (Return (SD_RES_OTHER 2))"
    by (metis outcome_of_def fst_conv option.simps(9))
  from t h1 h2 h3 h4 h5 h6 h7 h8 show ?thesis by blast
qed

end
